theory Spec2Isabelle
  imports Complex_Main
begin

section \<open>Strings and numbers of the scripts\<close>

text \<open>
  The charging scripts talk to two bench instruments, a WT310E power meter and an SPE6103
  DC source, over line-oriented ASCII protocols. A Python \<open>str\<close> is a \<open>string\<close>
  here (code points below 256). \<open>py_isspace\<close> is \<open>str.isspace\<close> on
  those code points, \<open>strip\<close> is \<open>str.strip()\<close>, \<open>split_on\<close> is
  \<open>str.split(sep)\<close> for a one-character separator and \<open>contains\<close>
  is the operator \<open>needle in haystack\<close>.
\<close>

definition py_isspace :: "char \<Rightarrow> bool" where
  "py_isspace c = ((of_char c :: nat) \<in> {9, 10, 11, 12, 13, 28, 29, 30, 31, 32, 133, 160})"

definition strip :: "string \<Rightarrow> string" where
  "strip s = rev (dropWhile py_isspace (rev (dropWhile py_isspace s)))"

fun split_on :: "char \<Rightarrow> string \<Rightarrow> string list" where
  "split_on c [] = [[]]"
| "split_on c (x # xs) =
     (if x = c then [] # split_on c xs
      else (case split_on c xs of
              [] \<Rightarrow> [[x]]
            | f # fs \<Rightarrow> (x # f) # fs))"

fun starts_with :: "string \<Rightarrow> string \<Rightarrow> bool" where
  "starts_with [] s = True"
| "starts_with (p # ps) [] = False"
| "starts_with (p # ps) (c # cs) = (p = c \<and> starts_with ps cs)"

fun contains :: "string \<Rightarrow> string \<Rightarrow> bool" where
  "contains needle [] = (needle = [])"
| "contains needle (c # cs) = (starts_with needle (c # cs) \<or> contains needle cs)"

text \<open>
  A Python \<open>float\<close>, as far as the scripts use one: they parse it, take \<open>abs\<close>,
  compare it with \<open>>=\<close> and write it out; they never compute with it. \<open>Fin r\<close>
  is the finite double of value \<open>r\<close>; \<open>float()\<close> also accepts
  \<open>inf\<close> and \<open>nan\<close>, which the meter sends on over-range and on missing data.
  \<open>fabs\<close> is \<open>abs\<close> and \<open>fge a b\<close> is \<open>a >= b\<close>: every comparison
  with NaN is false.
\<close>

datatype pyfloat = Fin real | PInf | NInf | NaN

fun fabs :: "pyfloat \<Rightarrow> pyfloat" where
  "fabs (Fin r) = Fin \<bar>r\<bar>"
| "fabs PInf = PInf"
| "fabs NInf = PInf"
| "fabs NaN = NaN"

fun fge :: "pyfloat \<Rightarrow> pyfloat \<Rightarrow> bool" where
  "fge NaN b = False"
| "fge a NaN = False"
| "fge PInf b = True"
| "fge a NInf = True"
| "fge NInf b = False"
| "fge a PInf = False"
| "fge (Fin a) (Fin b) = (b \<le> a)"

definition fzero :: pyfloat where
  "fzero = Fin 0"

text \<open>\<open>flt a b\<close> is \<open>a < b\<close> on floats.\<close>

fun flt :: "pyfloat \<Rightarrow> pyfloat \<Rightarrow> bool" where
  "flt NaN b = False"
| "flt a NaN = False"
| "flt PInf b = False"
| "flt a NInf = False"
| "flt NInf b = True"
| "flt a PInf = True"
| "flt (Fin a) (Fin b) = (a < b)"

text \<open>
  \<open>float(s)\<close> is Python's builtin, not code of the repository: the model takes it as
  the parameter \<open>to_float\<close> of the environment (\<open>None\<close> where it raises
  ValueError). \<open>float_lit\<close> is an instance on plain literals (an optional sign, then
  \<open>nan\<close>, \<open>inf\<close>, or digits with an optional fraction), used to run the
  model on concrete replies.
\<close>

definition digit_val :: "char \<Rightarrow> nat option" where
  "digit_val c =
     (let n = (of_char c :: nat) in if 48 \<le> n \<and> n \<le> 57 then Some (n - 48) else None)"

fun digits_val :: "nat \<Rightarrow> string \<Rightarrow> nat option" where
  "digits_val acc [] = Some acc"
| "digits_val acc (c # cs) =
     (case digit_val c of None \<Rightarrow> None | Some d \<Rightarrow> digits_val (10 * acc + d) cs)"

definition unsigned_lit :: "string \<Rightarrow> pyfloat option" where
  "unsigned_lit s =
     (if s = ''nan'' then Some NaN
      else if s = ''inf'' then Some PInf
      else (case split_on CHR ''.'' s of
              [ip] \<Rightarrow> (if ip = [] then None
                        else map_option (\<lambda>n. Fin (real n)) (digits_val 0 ip))
            | [ip, fp] \<Rightarrow>
                (if ip = [] \<and> fp = [] then None
                 else (case (digits_val 0 ip, digits_val 0 fp) of
                         (Some a, Some b) \<Rightarrow> Some (Fin (real a + real b / 10 ^ length fp))
                       | _ \<Rightarrow> None))
            | _ \<Rightarrow> None))"

fun fneg :: "pyfloat \<Rightarrow> pyfloat" where
  "fneg (Fin r) = Fin (- r)"
| "fneg PInf = NInf"
| "fneg NInf = PInf"
| "fneg NaN = NaN"

definition float_lit :: "string \<Rightarrow> pyfloat option" where
  "float_lit s =
     (case strip s of
        [] \<Rightarrow> None
      | c # cs \<Rightarrow>
          (if c = CHR ''-'' then map_option fneg (unsigned_lit cs)
           else if c = CHR ''+'' then unsigned_lit cs
           else unsigned_lit (c # cs)))"

section \<open>The world outside the script\<close>

text \<open>
  Every call on an instrument ends in one of three ways: it returns a line, it raises an
  exception of the I/O library (\<open>OtherError\<close>: any \<open>Exception\<close> that is
  neither a ValueError nor a RuntimeError, with its message), or the user's Ctrl-C arrives
  while it blocks (KeyboardInterrupt, which is not an \<open>Exception\<close>).
\<close>

datatype reply = Line string | Raises string | Interrupt

text \<open>
  The ValueErrors of \<open>read_wt310e\<close>, the two diagnostics it keeps in
  \<open>last_error\<close> (attempt number, bound, cause), and the exceptions of the scripts.
  \<open>ReadFailure\<close> is the RuntimeError of \<open>read_wt310e\<close>; its argument is
  \<open>last_error\<close>, \<open>None\<close> standing for the text "Unknown WT310E read error".
\<close>

datatype verr = EmptyResponse | Incomplete string | BadFloat string

datatype diag = ParseDiag nat nat verr | CommDiag nat nat string

datatype exn = ValueError verr | OtherError string | ReadFailure "diag option" | KeyboardInterrupt

text \<open>One CSV data row, in the column order of \<open>CSV_HEADERS\<close>.\<close>

record reading =
  timestamp :: real
  input_voltage :: pyfloat
  input_current :: pyfloat
  input_power :: pyfloat
  output_voltage :: pyfloat
  output_current :: pyfloat
  output_power :: pyfloat

text \<open>
  One data row of the serial-only script charging_working.py (\<open>Timestamp\<close>,
  \<open>Voltage(V)\<close>, \<open>Current(A)\<close>, \<open>Power(W)\<close>).
\<close>

record reading4 =
  timestamp4 :: real
  voltage4 :: pyfloat
  current4 :: pyfloat
  power4 :: pyfloat

text \<open>The calls of the shutdown blocks, and what the scripts do to the outside, in order.\<close>

datatype sd_call =
    OutpOff | DcClose | RmClose | SerClose | PltIoff | PltClose
  | WtInstClose | WtRmClose | SaveFig

datatype event =
    Sleep real
  | Opened string
  | Closed string
  | MeterWrite string
  | MeterReset
  | MeterQuery string
  | SourceWrite string
  | SourceQuery string
  | CsvHeader
  | CsvRow reading
  | CsvRow4 reading4
  | PlotPoint real pyfloat pyfloat
  | Shutdown sd_call
  | ReportCsv
  | ReportGraph

text \<open>
  The environment fixes what the outside answers: the line of the n-th query on the
  meter and on the source, the clock readings taken in the n-th iteration of the polling
  loop (\<open>time.time()\<close> at its top, \<open>datetime.now()\<close> for the row,
  \<open>time.time()\<close> for the plot), whether Ctrl-C arrives during the n-th sleep of the
  loop, and which calls of the shutdown block raise.
\<close>

record env =
  to_float :: "string \<Rightarrow> pyfloat option"
  meter_reply :: "nat \<Rightarrow> reply"
  source_reply :: "nat \<Rightarrow> reply"
  loop_now :: "nat \<Rightarrow> real"
  row_now :: "nat \<Rightarrow> real"
  plot_now :: "nat \<Rightarrow> real"
  sleep_interrupted :: "nat \<Rightarrow> bool"
  sd_raises :: "sd_call \<Rightarrow> bool"

text \<open>
  The state the script has built up: how many meter and source queries it has made, how
  many loop iterations it has begun, the data rows of the CSV file (\<open>csv4\<close> for
  the four-column file of charging_working.py), the points of the plot, and the trace of
  its actions.
\<close>

record world =
  mq :: nat
  sq :: nat
  iter :: nat
  csv :: "reading list"
  csv4 :: "reading4 list"
  plot :: "(real \<times> pyfloat \<times> pyfloat) list"
  trace :: "event list"

definition emit :: "event \<Rightarrow> world \<Rightarrow> world" where
  "emit ev w = w\<lparr>trace := trace w @ [ev]\<rparr>"

definition world0 :: world where
  "world0 = \<lparr>mq = 0, sq = 0, iter = 0, csv = [], csv4 = [], plot = [], trace = []\<rparr>"

section \<open>Reading the meter (charging.py)\<close>

definition STABILIZING_TIME :: real where
  "STABILIZING_TIME = 1 / 2"

text \<open>
  \<open>wt_query(ser, cmd)\<close>: write the command, read a line, decode and strip it.
  \<open>ser\<close> is \<open>None\<close> when the meter was not detected; every method call on it
  then raises AttributeError.
\<close>

definition wt_query :: "env \<Rightarrow> string option \<Rightarrow> string \<Rightarrow> world \<Rightarrow> (exn + string) \<times> world" where
  "wt_query e ser cmd w =
     (case ser of
        None \<Rightarrow> (Inl (OtherError ''AttributeError''), w)
      | Some port \<Rightarrow>
          (let w' = emit (MeterQuery cmd) (w\<lparr>mq := mq w + 1\<rparr>) in
           case meter_reply e (mq w) of
             Line l \<Rightarrow> (Inr (strip l), w')
           | Raises d \<Rightarrow> (Inl (OtherError d), w')
           | Interrupt \<Rightarrow> (Inl KeyboardInterrupt, w')))"

text \<open>
  The inner loop of an attempt: up to three queries, to skip blank replies, with a
  sleep of 0.05 s after each blank one. It leaves \<open>raw_line\<close> empty when all three
  were blank.
\<close>

fun query_nonblank :: "nat \<Rightarrow> env \<Rightarrow> string option \<Rightarrow> world \<Rightarrow> (exn + string) \<times> world" where
  "query_nonblank 0 e ser w = (Inr [], w)"
| "query_nonblank (Suc n) e ser w =
     (case wt_query e ser '':NUM:NORM:VAL?'' w of
        (Inl x, w1) \<Rightarrow> (Inl x, w1)
      | (Inr raw_line, w1) \<Rightarrow>
          (if raw_line \<noteq> [] then (Inr raw_line, w1)
           else query_nonblank n e ser (emit (Sleep (1 / 20)) w1)))"

text \<open>
  The parsing of a reply: the comma-separated fields that are not blank, stripped; at
  least three of them; the first three converted with \<open>float\<close>.
\<close>

definition nonblank_fields :: "string \<Rightarrow> string list" where
  "nonblank_fields raw_line = map strip (filter (\<lambda>p. strip p \<noteq> []) (split_on CHR '','' raw_line))"

definition parse_reply ::
  "(string \<Rightarrow> pyfloat option) \<Rightarrow> string \<Rightarrow> verr + (pyfloat \<times> pyfloat \<times> pyfloat)" where
  "parse_reply pf raw_line =
     (if raw_line = [] then Inl EmptyResponse
      else
        (let parts = nonblank_fields raw_line in
         if length parts < 3 then Inl (Incomplete raw_line)
         else
           (case pf (parts ! 0) of
              None \<Rightarrow> Inl (BadFloat (parts ! 0))
            | Some v \<Rightarrow>
                (case pf (parts ! 1) of
                   None \<Rightarrow> Inl (BadFloat (parts ! 1))
                 | Some i \<Rightarrow>
                     (case pf (parts ! 2) of
                        None \<Rightarrow> Inl (BadFloat (parts ! 2))
                      | Some p \<Rightarrow> Inr (v, i, p))))))"

text \<open>
  The body of the \<open>try\<close> of one attempt: the stabilizing sleep, the buffer resets
  (their own exceptions are swallowed), the queries and the parsing.
\<close>

definition reset_buffers :: "string option \<Rightarrow> world \<Rightarrow> world" where
  "reset_buffers ser w = (case ser of None \<Rightarrow> w | Some port \<Rightarrow> emit MeterReset w)"

definition attempt ::
  "env \<Rightarrow> string option \<Rightarrow> world \<Rightarrow> (exn + (pyfloat \<times> pyfloat \<times> pyfloat)) \<times> world" where
  "attempt e ser w =
     (case query_nonblank 3 e ser (reset_buffers ser (emit (Sleep STABILIZING_TIME) w)) of
        (Inl x, w1) \<Rightarrow> (Inl x, w1)
      | (Inr raw_line, w1) \<Rightarrow>
          (case parse_reply (to_float e) raw_line of
             Inl v \<Rightarrow> (Inl (ValueError v), w1)
           | Inr t \<Rightarrow> (Inr t, w1)))"

text \<open>
  \<open>for attempt in range(1, retries + 1)\<close>, with \<open>n\<close> attempts left: a
  ValueError is a parse error, any other \<open>Exception\<close> a comm error; both set
  \<open>last_error\<close>, sleep 0.2 s and go on. KeyboardInterrupt passes through. When no
  attempt is left the RuntimeError carries \<open>last_error\<close>.
\<close>

definition backoff :: "world \<Rightarrow> world" where
  "backoff w = emit (Sleep (1 / 5)) w"

fun retry_loop ::
  "env \<Rightarrow> string option \<Rightarrow> nat \<Rightarrow> nat \<Rightarrow> diag option \<Rightarrow> world
     \<Rightarrow> (exn + (pyfloat \<times> pyfloat \<times> pyfloat)) \<times> world" where
  "retry_loop e ser retries 0 last_error w = (Inl (ReadFailure last_error), w)"
| "retry_loop e ser retries (Suc n) last_error w =
     (case attempt e ser w of
        (Inr t, w1) \<Rightarrow> (Inr t, w1)
      | (Inl (ValueError v), w1) \<Rightarrow>
          retry_loop e ser retries n (Some (ParseDiag (retries - n) retries v)) (backoff w1)
      | (Inl (OtherError d), w1) \<Rightarrow>
          retry_loop e ser retries n (Some (CommDiag (retries - n) retries d)) (backoff w1)
      | (Inl (ReadFailure d), w1) \<Rightarrow>
          retry_loop e ser retries n (Some (CommDiag (retries - n) retries ''RuntimeError''))
            (backoff w1)
      | (Inl KeyboardInterrupt, w1) \<Rightarrow> (Inl KeyboardInterrupt, w1))"

definition read_wt310e ::
  "env \<Rightarrow> string option \<Rightarrow> nat \<Rightarrow> world \<Rightarrow> (exn + (pyfloat \<times> pyfloat \<times> pyfloat)) \<times> world" where
  "read_wt310e e ser retries w = retry_loop e ser retries retries None w"

section \<open>One row of the log (charging.py)\<close>

text \<open>
  \<open>float(dc.query(cmd))\<close>: one scalar query on the DC source.
\<close>

definition dc_query_float :: "env \<Rightarrow> string \<Rightarrow> world \<Rightarrow> (exn + pyfloat) \<times> world" where
  "dc_query_float e cmd w =
     (let w' = emit (SourceQuery cmd) (w\<lparr>sq := sq w + 1\<rparr>) in
      case source_reply e (sq w) of
        Line l \<Rightarrow>
          (case to_float e l of
             None \<Rightarrow> (Inl (ValueError (BadFloat l)), w')
           | Some x \<Rightarrow> (Inr x, w'))
      | Raises d \<Rightarrow> (Inl (OtherError d), w')
      | Interrupt \<Rightarrow> (Inl KeyboardInterrupt, w'))"

definition update_plot :: "real \<Rightarrow> pyfloat \<Rightarrow> pyfloat \<Rightarrow> world \<Rightarrow> world" where
  "update_plot elapsed voltage current w =
     emit (PlotPoint elapsed voltage current) (w\<lparr>plot := plot w @ [(elapsed, voltage, current)]\<rparr>)"

definition append_row :: "reading \<Rightarrow> world \<Rightarrow> world" where
  "append_row r w = emit (CsvRow r) (w\<lparr>csv := csv w @ [r]\<rparr>)"

text \<open>
  \<open>log_row()\<close>: the meter, the three source queries, the timestamp, the absolute
  values, the CSV row, the plot point; it returns the meter's voltage. The CSV file and
  the plot are taken to accept every write.
\<close>

definition log_row :: "env \<Rightarrow> string option \<Rightarrow> real \<Rightarrow> world \<Rightarrow> (exn + pyfloat) \<times> world" where
  "log_row e ser start_time w =
     (case read_wt310e e ser 5 w of
        (Inl x, w1) \<Rightarrow> (Inl x, w1)
      | (Inr (Ov, Oc, Op), w1) \<Rightarrow>
          (case dc_query_float e ''MEAS:VOLT?'' w1 of
             (Inl x, w2) \<Rightarrow> (Inl x, w2)
           | (Inr Iv, w2) \<Rightarrow>
               (case dc_query_float e ''MEAS:CURR?'' w2 of
                  (Inl x, w3) \<Rightarrow> (Inl x, w3)
                | (Inr Ic, w3) \<Rightarrow>
                    (case dc_query_float e ''MEAS:POW?'' w3 of
                       (Inl x, w4) \<Rightarrow> (Inl x, w4)
                     | (Inr Ip, w4) \<Rightarrow>
                         (let output_current = fabs Oc;
                              output_power = fabs Op;
                              r = \<lparr>timestamp = row_now e (iter w4),
                                   input_voltage = Iv, input_current = Ic, input_power = Ip,
                                   output_voltage = Ov, output_current = output_current,
                                   output_power = output_power\<rparr>;
                              w5 = append_row r w4;
                              elapsed = plot_now e (iter w5) - start_time
                          in (Inr Ov, update_plot elapsed Ov output_current w5))))))"

section \<open>The polling loop (charging.py)\<close>

text \<open>
  The editable parameters of a run. \<open>set_voltage_text\<close> and
  \<open>set_current_text\<close> are the setpoints as the f-strings print them (two decimals).
\<close>

record cfg =
  stop_voltage :: pyfloat
  set_voltage_text :: string
  set_current_text :: string
  log_interval :: real

definition charging_cfg :: cfg where
  "charging_cfg =
     \<lparr>stop_voltage = Fin (167 / 20), set_voltage_text = ''12.00'',
      set_current_text = ''2.00'', log_interval = 10\<rparr>"

text \<open>How the loop ends: the \<open>break\<close> on the stop voltage, or an exception.\<close>

datatype loop_exit = StopReached | Raised exn

text \<open>
  \<open>time.sleep(0.1)\<close> at the end of an iteration; Ctrl-C may arrive while it sleeps.
\<close>

definition loop_sleep :: "env \<Rightarrow> real \<Rightarrow> world \<Rightarrow> exn + world" where
  "loop_sleep e d w =
     (if sleep_interrupted e (iter w) then Inl KeyboardInterrupt
      else Inr ((emit (Sleep d) w)\<lparr>iter := iter w + 1\<rparr>))"

text \<open>
  \<open>while True\<close> with a bound on the number of iterations: \<open>None\<close> when the
  bound is used up before the loop ends.
\<close>

fun poll_loop ::
  "nat \<Rightarrow> env \<Rightarrow> cfg \<Rightarrow> string option \<Rightarrow> real \<Rightarrow> real \<Rightarrow> world \<Rightarrow> (loop_exit \<times> world) option" where
  "poll_loop 0 e c ser start_time next_log_time w = None"
| "poll_loop (Suc fuel) e c ser start_time next_log_time w =
     (if next_log_time \<le> loop_now e (iter w) then
        (case log_row e ser start_time w of
           (Inl x, w1) \<Rightarrow> Some (Raised x, w1)
         | (Inr voltage, w1) \<Rightarrow>
             (if fge voltage (stop_voltage c) then Some (StopReached, w1)
              else (case loop_sleep e (1 / 10) w1 of
                      Inl x \<Rightarrow> Some (Raised x, w1)
                    | Inr w2 \<Rightarrow>
                        poll_loop fuel e c ser start_time (next_log_time + log_interval c) w2)))
      else (case loop_sleep e (1 / 10) w of
              Inl x \<Rightarrow> Some (Raised x, w)
            | Inr w2 \<Rightarrow> poll_loop fuel e c ser start_time next_log_time w2))"

section \<open>The shutdown block (charging.py)\<close>

text \<open>
  \<open>try: c1; c2; ... except: pass\<close>: the calls in order up to the first that
  raises; the result says whether all of them returned.
\<close>

fun try_calls :: "env \<Rightarrow> sd_call list \<Rightarrow> world \<Rightarrow> bool \<times> world" where
  "try_calls e [] w = (True, w)"
| "try_calls e (c # cs) w =
     (if sd_raises e c then (False, emit (Shutdown c) w)
      else try_calls e cs (emit (Shutdown c) w))"

definition guarded :: "env \<Rightarrow> sd_call list \<Rightarrow> world \<Rightarrow> world" where
  "guarded e cs w = snd (try_calls e cs w)"

text \<open>
  The \<open>finally\<close> block. With \<open>ser = None\<close> the call \<open>ser.close()\<close> raises
  before it reaches any port, and the bare \<open>except\<close> swallows it.
\<close>

definition charging_shutdown :: "env \<Rightarrow> string option \<Rightarrow> world \<Rightarrow> world" where
  "charging_shutdown e ser w =
     (let w1 = guarded e [OutpOff] w;
          w2 = guarded e [DcClose, RmClose] w1;
          w3 = (case ser of None \<Rightarrow> w2 | Some port \<Rightarrow> guarded e [SerClose] w2);
          w4 = guarded e [PltIoff, PltClose] w3
      in emit ReportCsv w4)"

section \<open>Detecting the instruments (charging.py)\<close>

text \<open>
  How one endpoint behaves when it is probed: whether opening it raises, what the
  identification exchange gives (a line, or an exception anywhere between the open and
  the end of the read), and whether closing it raises. The candidates come as a list, in
  the order of enumeration, each with its behaviour.
\<close>

datatype idn_result = Idn string | IdnRaises

record probe =
  open_raises :: bool
  idn :: idn_result
  close_raises :: bool

definition emits :: "event list \<Rightarrow> world \<Rightarrow> world" where
  "emits evs w = w\<lparr>trace := trace w @ evs\<rparr>"

text \<open>
  \<open>detect_wt310e()\<close> over the sorted \<open>/dev/ttyUSB*\<close> devices: open, write
  \<open>*IDN?\<close>, wait, read, close, then look for the marker. \<open>except Exception: pass\<close>
  is inside the loop.
\<close>

fun detect_wt310e :: "(string \<times> probe) list \<Rightarrow> world \<Rightarrow> string option \<times> world" where
  "detect_wt310e [] w = (None, w)"
| "detect_wt310e ((dev, p) # rest) w =
     (if open_raises p then detect_wt310e rest w
      else
        (case idn p of
           IdnRaises \<Rightarrow> detect_wt310e rest (emit (Opened dev) w)
         | Idn line \<Rightarrow>
             (if close_raises p then
                detect_wt310e rest
                  (emits [Opened dev, MeterWrite ''*IDN?'', Sleep (3 / 10)] w)
              else if contains ''YOKOGAWA'' (strip line) \<or> contains ''WT310'' (strip line) then
                (Some dev, emits [Opened dev, MeterWrite ''*IDN?'', Sleep (3 / 10), Closed dev] w)
              else
                detect_wt310e rest
                  (emits [Opened dev, MeterWrite ''*IDN?'', Sleep (3 / 10), Closed dev] w))))"

text \<open>
  \<open>detect_spe6103()\<close> over the VISA resources whose name contains \<open>ASRL\<close> and
  \<open>INSTR\<close>: open, configure, query \<open>*IDN?\<close>; a match is returned open, a
  candidate that answered something else is closed. \<open>except Exception: pass\<close> is
  inside the loop.
\<close>

fun detect_spe6103 :: "(string \<times> probe) list \<Rightarrow> world \<Rightarrow> string option \<times> world" where
  "detect_spe6103 [] w = (None, w)"
| "detect_spe6103 ((res, p) # rest) w =
     (if contains ''ASRL'' res \<and> contains ''INSTR'' res then
        (if open_raises p then detect_spe6103 rest w
         else
           (case idn p of
              IdnRaises \<Rightarrow> detect_spe6103 rest (emit (Opened res) w)
            | Idn line \<Rightarrow>
                (if contains ''SPE'' (strip line) \<or> contains ''6103'' (strip line) then
                   (Some res, emits [Opened res, SourceQuery ''*IDN?''] w)
                 else if close_raises p then
                   detect_spe6103 rest (emits [Opened res, SourceQuery ''*IDN?''] w)
                 else
                   detect_spe6103 rest
                     (emits [Opened res, SourceQuery ''*IDN?'', Closed res] w))))
      else detect_spe6103 rest w)"

text \<open>The endpoints a trace has opened and not closed, the latest first.\<close>

fun handles_after :: "string list \<Rightarrow> event list \<Rightarrow> string list" where
  "handles_after hs [] = hs"
| "handles_after hs (Opened d # evs) = handles_after (d # hs) evs"
| "handles_after hs (Closed d # evs) = handles_after (remove1 d hs) evs"
| "handles_after hs (ev # evs) = handles_after hs evs"

definition open_handles :: "world \<Rightarrow> string list" where
  "open_handles w = handles_after [] (trace w)"

text \<open>
  \<open>connect_wt310e(com)\<close> returns \<open>None\<close> when opening the port raises;
  \<open>setup_wt310e(ser)\<close> resets and configures the meter. Writes on an open port are
  taken to succeed.
\<close>

definition connect_wt310e :: "bool \<Rightarrow> string \<Rightarrow> world \<Rightarrow> string option \<times> world" where
  "connect_wt310e raises com w =
     (if raises then (None, w) else (Some com, emits [Opened com, Sleep 1] w))"

definition setup_wt310e :: "world \<Rightarrow> world" where
  "setup_wt310e w =
     emits [MeterWrite ''*RST'', Sleep 1, MeterWrite '':INPut:MODE DC'',
            MeterWrite '':INPut:WIRing P1W2'', MeterWrite '':INPut:VOLTage:RANGe:AUTO ON'',
            MeterWrite '':INPut:CURRent:RANGe:AUTO ON'',
            MeterWrite '':FORM:ELEM VOLT,CURR,POW'', Sleep (1 / 2)] w"

section \<open>The whole run (charging.py)\<close>

text \<open>
  The bench a run finds: the serial devices and the VISA resources with their
  behaviour, whether the second open of the meter's port raises, and the clock reading
  that becomes \<open>start_time\<close>.
\<close>

record bench =
  serial_devices :: "(string \<times> probe) list"
  connect_raises :: bool
  visa_resources :: "(string \<times> probe) list"
  start_now :: real

datatype main_result = NoSource | Ended loop_exit

definition is_meter_write :: "event \<Rightarrow> bool" where
  "is_meter_write ev = (case ev of MeterWrite cmd \<Rightarrow> True | _ \<Rightarrow> False)"

definition is_source_write :: "event \<Rightarrow> bool" where
  "is_source_write ev = (case ev of SourceWrite cmd \<Rightarrow> True | _ \<Rightarrow> False)"

text \<open>
  \<open>main()\<close>: detect and set up the meter (a missing meter leaves \<open>ser = None\<close>
  and the run goes on), detect the source and return when there is none, program and
  enable the source, write the CSV header, poll, and shut down in the \<open>finally\<close>
  block. After the block a KeyboardInterrupt has been handled; any other exception
  leaves \<open>main\<close>.
\<close>

definition enable_source :: "cfg \<Rightarrow> world \<Rightarrow> world" where
  "enable_source c w =
     emits [SourceWrite (''VOLT '' @ set_voltage_text c),
            SourceWrite (''CURR '' @ set_current_text c),
            SourceWrite ''OUTP ON'', Sleep STABILIZING_TIME, CsvHeader] w"

definition find_meter :: "bench \<Rightarrow> world \<Rightarrow> string option \<times> world" where
  "find_meter b w =
     (case detect_wt310e (serial_devices b) w of
        (None, w1) \<Rightarrow> (None, emit (Sleep (1 / 2)) w1)
      | (Some com, w1) \<Rightarrow>
          (case connect_wt310e (connect_raises b) com (emit (Sleep (1 / 2)) w1) of
             (None, w2) \<Rightarrow> (None, w2)
           | (Some port, w2) \<Rightarrow> (Some port, setup_wt310e w2)))"

definition charging_main :: "nat \<Rightarrow> env \<Rightarrow> bench \<Rightarrow> cfg \<Rightarrow> (main_result \<times> world) option" where
  "charging_main fuel e b c =
     (case find_meter b world0 of
        (ser, w1) \<Rightarrow>
          (case detect_spe6103 (visa_resources b) w1 of
             (None, w2) \<Rightarrow> Some (NoSource, emit (Sleep (1 / 2)) w2)
           | (Some dc, w2) \<Rightarrow>
               (case poll_loop fuel e c ser (start_now b) (start_now b)
                       (enable_source c (emit (Sleep (1 / 2)) w2)) of
                  None \<Rightarrow> None
                | Some (ex, w3) \<Rightarrow> Some (Ended ex, charging_shutdown e ser w3))))"

section \<open>The Windows and Raspberry Pi variant (main_test.py, wt310e_driver.py)\<close>

definition ends_with :: "string \<Rightarrow> string \<Rightarrow> bool" where
  "ends_with suffix s = starts_with (rev suffix) (rev s)"

text \<open>
  \<open>detect_spe6103(rm)\<close> of main_test.py: the names must start with \<open>ASRL\<close>
  and end with \<open>INSTR\<close>; the \<open>try\<close> is inside the loop.
\<close>

fun mt_detect_spe6103 :: "(string \<times> probe) list \<Rightarrow> world \<Rightarrow> string option \<times> world" where
  "mt_detect_spe6103 [] w = (None, w)"
| "mt_detect_spe6103 ((res, p) # rest) w =
     (if starts_with ''ASRL'' res \<and> ends_with ''INSTR'' res then
        (if open_raises p then mt_detect_spe6103 rest w
         else
           (case idn p of
              IdnRaises \<Rightarrow> mt_detect_spe6103 rest (emit (Opened res) w)
            | Idn line \<Rightarrow>
                (if contains ''SPE'' line \<or> contains ''6103'' line then
                   (Some res, emits [Opened res, SourceQuery ''*IDN?''] w)
                 else if close_raises p then
                   mt_detect_spe6103 rest (emits [Opened res, SourceQuery ''*IDN?''] w)
                 else
                   mt_detect_spe6103 rest
                     (emits [Opened res, SourceQuery ''*IDN?'', Closed res] w))))
      else mt_detect_spe6103 rest w)"

text \<open>
  \<open>WT310E.connect()\<close>. The VISA scan stands inside one \<open>try\<close>: an exception on
  a candidate leaves the \<open>for\<close> loop (\<open>ScanRaised\<close>). A candidate that answers
  without the marker stays open. Then the USBTMC device is tried, when that module was
  imported.
\<close>

datatype scan = Found string | NotFound | ScanRaised

fun visa_scan :: "(string \<times> probe) list \<Rightarrow> world \<Rightarrow> scan \<times> world" where
  "visa_scan [] w = (NotFound, w)"
| "visa_scan ((res, p) # rest) w =
     (if contains ''USB'' res then
        (if open_raises p then (ScanRaised, w)
         else
           (case idn p of
              IdnRaises \<Rightarrow> (ScanRaised, emit (Opened res) w)
            | Idn line \<Rightarrow>
                (if contains ''YOKOGAWA'' line then
                   (Found res, emits [Opened res, MeterQuery ''*IDN?''] w)
                 else visa_scan rest (emits [Opened res, MeterQuery ''*IDN?''] w))))
      else visa_scan rest w)"

datatype backend = VISA string | USBTMC

definition usbtmc_probe :: "probe \<Rightarrow> world \<Rightarrow> backend option \<times> world" where
  "usbtmc_probe p w =
     (if open_raises p then (None, w)
      else
        (case idn p of
           IdnRaises \<Rightarrow> (None, emit (Opened ''USB::0x0B21::0x0025::INSTR'') w)
         | Idn line \<Rightarrow>
             (if contains ''YOKOGAWA'' line then
                (Some USBTMC,
                 emits [Opened ''USB::0x0B21::0x0025::INSTR'', MeterQuery ''*IDN?''] w)
              else
                (None, emits [Opened ''USB::0x0B21::0x0025::INSTR'', MeterQuery ''*IDN?''] w))))"

text \<open>
  \<open>use_pyvisa\<close> and \<open>use_usbtmc\<close> are the module's flags \<open>USE_PYVISA\<close> and
  \<open>USE_USBTMC\<close>; \<open>rm_raises\<close> says that \<open>pyvisa.ResourceManager()\<close> raises.
\<close>

definition wt_connect ::
  "bool \<Rightarrow> bool \<Rightarrow> bool \<Rightarrow> (string \<times> probe) list \<Rightarrow> probe \<Rightarrow> world \<Rightarrow> backend option \<times> world" where
  "wt_connect use_pyvisa use_usbtmc rm_raises resources usb w =
     (case (if use_pyvisa \<and> \<not> rm_raises then visa_scan resources w else (NotFound, w)) of
        (Found res, w1) \<Rightarrow> (Some (VISA res), w1)
      | (r, w1) \<Rightarrow> (if use_usbtmc then usbtmc_probe usb w1 else (None, w1)))"

text \<open>
  \<open>WT310E.read()\<close>: one query, the reply stripped and split at the commas, the first
  three parts converted. A missing part is an IndexError.
\<close>

definition float_at :: "(string \<Rightarrow> pyfloat option) \<Rightarrow> string list \<Rightarrow> nat \<Rightarrow> exn + pyfloat" where
  "float_at pf parts k =
     (if k < length parts then
        (case pf (parts ! k) of
           None \<Rightarrow> Inl (ValueError (BadFloat (parts ! k)))
         | Some x \<Rightarrow> Inr x)
      else Inl (OtherError ''IndexError''))"

definition wt_read :: "env \<Rightarrow> world \<Rightarrow> (exn + (pyfloat \<times> pyfloat \<times> pyfloat)) \<times> world" where
  "wt_read e w =
     (let w' = emit (MeterQuery '':NUM:VAL?'') (w\<lparr>mq := mq w + 1\<rparr>) in
      case meter_reply e (mq w) of
        Raises d \<Rightarrow> (Inl (OtherError d), w')
      | Interrupt \<Rightarrow> (Inl KeyboardInterrupt, w')
      | Line raw \<Rightarrow>
          (let parts = split_on CHR '','' (strip raw) in
           case float_at (to_float e) parts 0 of
             Inl x \<Rightarrow> (Inl x, w')
           | Inr v \<Rightarrow>
               (case float_at (to_float e) parts 1 of
                  Inl x \<Rightarrow> (Inl x, w')
                | Inr i \<Rightarrow>
                    (case float_at (to_float e) parts 2 of
                       Inl x \<Rightarrow> (Inl x, w')
                     | Inr p \<Rightarrow> (Inr (v, i, p), w')))))"

text \<open>The body of the loop of main_test.py up to the print, and the loop.\<close>

definition mt_tick :: "env \<Rightarrow> real \<Rightarrow> world \<Rightarrow> (exn + pyfloat) \<times> world" where
  "mt_tick e start_time w =
     (case wt_read e w of
        (Inl x, w1) \<Rightarrow> (Inl x, w1)
      | (Inr (Ov, Oc0, Op0), w1) \<Rightarrow>
          (let Oc = fabs Oc0; Op = fabs Op0 in
           case dc_query_float e ''MEAS:VOLT?'' w1 of
             (Inl x, w2) \<Rightarrow> (Inl x, w2)
           | (Inr Iv, w2) \<Rightarrow>
               (case dc_query_float e ''MEAS:CURR?'' w2 of
                  (Inl x, w3) \<Rightarrow> (Inl x, w3)
                | (Inr Ic, w3) \<Rightarrow>
                    (case dc_query_float e ''MEAS:POW?'' w3 of
                       (Inl x, w4) \<Rightarrow> (Inl x, w4)
                     | (Inr Ip, w4) \<Rightarrow>
                         (let r = \<lparr>timestamp = row_now e (iter w4),
                                   input_voltage = Iv, input_current = Ic, input_power = Ip,
                                   output_voltage = Ov, output_current = Oc,
                                   output_power = Op\<rparr>;
                              w5 = append_row r w4;
                              elapsed = plot_now e (iter w5) - start_time
                          in (Inr Ov, update_plot elapsed Ov Oc w5))))))"

fun mt_poll_loop ::
  "nat \<Rightarrow> env \<Rightarrow> cfg \<Rightarrow> real \<Rightarrow> world \<Rightarrow> (loop_exit \<times> world) option" where
  "mt_poll_loop 0 e c start_time w = None"
| "mt_poll_loop (Suc fuel) e c start_time w =
     (case mt_tick e start_time w of
        (Inl x, w1) \<Rightarrow> Some (Raised x, w1)
      | (Inr Ov, w1) \<Rightarrow>
          (if fge Ov (stop_voltage c) then Some (StopReached, w1)
           else (case loop_sleep e (log_interval c) w1 of
                   Inl x \<Rightarrow> Some (Raised x, w1)
                 | Inr w2 \<Rightarrow> mt_poll_loop fuel e c start_time w2)))"

definition main_test_cfg :: cfg where
  "main_test_cfg =
     \<lparr>stop_voltage = Fin (167 / 20), set_voltage_text = ''12.00'',
      set_current_text = ''2.00'', log_interval = 3\<rparr>"

text \<open>
  The \<open>finally\<close> block of main_test.py. \<open>wt.close()\<close> guards its two closes
  itself (\<open>has_rm\<close>: the driver holds a resource manager); \<open>fig.savefig\<close>,
  \<open>plt.ioff\<close> and \<open>plt.close\<close> stand outside every \<open>try\<close>, so an
  exception of theirs leaves the block at once. The result is whether the block ran to
  its end.
\<close>

definition mt_shutdown :: "env \<Rightarrow> bool \<Rightarrow> world \<Rightarrow> bool \<times> world" where
  "mt_shutdown e has_rm w =
     (let w1 = guarded e [OutpOff] w;
          w2 = guarded e [WtInstClose] w1;
          w3 = (if has_rm then guarded e [WtRmClose] w2 else w2);
          w4 = guarded e [DcClose, RmClose] w3
      in case try_calls e [SaveFig, PltIoff, PltClose] w4 of
           (False, w5) \<Rightarrow> (False, w5)
         | (True, w5) \<Rightarrow> (True, emits [ReportCsv, ReportGraph] w5))"

definition mt_logging ::
  "nat \<Rightarrow> env \<Rightarrow> cfg \<Rightarrow> bool \<Rightarrow> real \<Rightarrow> world \<Rightarrow> (loop_exit \<times> bool \<times> world) option" where
  "mt_logging fuel e c has_rm start_time w =
     (case mt_poll_loop fuel e c start_time w of
        None \<Rightarrow> None
      | Some (ex, w1) \<Rightarrow> Some (ex, mt_shutdown e has_rm w1))"

section \<open>The serial-only variant (charging_working.py)\<close>

text \<open>
  \<open>read_wt310e(ser)\<close> of charging_working.py: three queries, one per item, each
  converted with \<open>float\<close>, with no retry. \<open>log_row(ser)\<close> waits a second,
  reads, and appends the row as read.
\<close>

definition cw_query_float :: "env \<Rightarrow> string option \<Rightarrow> string \<Rightarrow> world \<Rightarrow> (exn + pyfloat) \<times> world" where
  "cw_query_float e ser cmd w =
     (case wt_query e ser cmd w of
        (Inl x, w1) \<Rightarrow> (Inl x, w1)
      | (Inr line, w1) \<Rightarrow>
          (case to_float e line of
             None \<Rightarrow> (Inl (ValueError (BadFloat line)), w1)
           | Some x \<Rightarrow> (Inr x, w1)))"

definition cw_read_wt310e ::
  "env \<Rightarrow> string option \<Rightarrow> world \<Rightarrow> (exn + (pyfloat \<times> pyfloat \<times> pyfloat)) \<times> world" where
  "cw_read_wt310e e ser w =
     (case cw_query_float e ser '':NUM:NORM:VAL? 1'' (emit (Sleep (2 / 5)) w) of
        (Inl x, w1) \<Rightarrow> (Inl x, w1)
      | (Inr v, w1) \<Rightarrow>
          (case cw_query_float e ser '':NUM:NORM:VAL? 2'' (emit (Sleep (1 / 10)) w1) of
             (Inl x, w2) \<Rightarrow> (Inl x, w2)
           | (Inr i, w2) \<Rightarrow>
               (case cw_query_float e ser '':NUM:NORM:VAL? 3'' (emit (Sleep (1 / 10)) w2) of
                  (Inl x, w3) \<Rightarrow> (Inl x, w3)
                | (Inr p, w3) \<Rightarrow> (Inr (v, i, p), w3))))"

definition cw_log_row :: "env \<Rightarrow> string option \<Rightarrow> world \<Rightarrow> (exn + pyfloat) \<times> world" where
  "cw_log_row e ser w =
     (case cw_read_wt310e e ser (emit (Sleep 1) w) of
        (Inl x, w1) \<Rightarrow> (Inl x, w1)
      | (Inr (v, i, p), w1) \<Rightarrow>
          (let r = \<lparr>timestamp4 = row_now e (iter w1), voltage4 = v, current4 = i, power4 = p\<rparr>
           in (Inr v, emit (CsvRow4 r) (w1\<lparr>csv4 := csv4 w1 @ [r]\<rparr>))))"

section \<open>Notions used to state the properties\<close>

text \<open>The events of a meter read: its sleeps, buffer resets and queries.\<close>

definition meter_event :: "event \<Rightarrow> bool" where
  "meter_event ev =
     (case ev of Sleep d \<Rightarrow> True | MeterReset \<Rightarrow> True | MeterQuery cmd \<Rightarrow> True | _ \<Rightarrow> False)"


text \<open>
  The k-th attempt of a read that starts in world \<open>w\<close>, when every earlier attempt
  failed and was followed by the backoff sleep: its result and the world after it.
  An attempt can be retried when it ended in a ValueError or in another exception of
  the I/O library; \<open>diag_of a n r\<close> is the diagnostic that \<open>last_error\<close> keeps
  for such a result \<open>r\<close> of attempt \<open>a\<close> of \<open>n\<close>.
\<close>

fun nth_attempt ::
  "env \<Rightarrow> string option \<Rightarrow> world \<Rightarrow> nat \<Rightarrow> (exn + (pyfloat \<times> pyfloat \<times> pyfloat)) \<times> world" where
  "nth_attempt e ser w 0 = attempt e ser w"
| "nth_attempt e ser w (Suc k) = attempt e ser (backoff (snd (nth_attempt e ser w k)))"

definition retryable :: "(exn + (pyfloat \<times> pyfloat \<times> pyfloat)) \<Rightarrow> bool" where
  "retryable r =
     (case r of Inl (ValueError v) \<Rightarrow> True | Inl (OtherError d) \<Rightarrow> True | _ \<Rightarrow> False)"

definition diag_of :: "nat \<Rightarrow> nat \<Rightarrow> (exn + (pyfloat \<times> pyfloat \<times> pyfloat)) \<Rightarrow> diag option" where
  "diag_of a n r =
     (case r of
        Inl (ValueError v) \<Rightarrow> Some (ParseDiag a n v)
      | Inl (OtherError d) \<Rightarrow> Some (CommDiag a n d)
      | _ \<Rightarrow> None)"

text \<open>
  Sample environments for running the model: the replies of a list, then a default;
  a clock that advances by a fixed step per loop iteration; no Ctrl-C and no failing
  shutdown call unless said otherwise.
\<close>

definition replies :: "reply list \<Rightarrow> reply \<Rightarrow> nat \<Rightarrow> reply" where
  "replies rs d n = (if n < length rs then rs ! n else d)"

definition sample_env :: "(nat \<Rightarrow> reply) \<Rightarrow> (nat \<Rightarrow> reply) \<Rightarrow> real \<Rightarrow> env" where
  "sample_env m s step =
     \<lparr>to_float = float_lit, meter_reply = m, source_reply = s,
      loop_now = (\<lambda>n. real n * step), row_now = (\<lambda>n. real n * step),
      plot_now = (\<lambda>n. real n * step), sleep_interrupted = (\<lambda>n. False),
      sd_raises = (\<lambda>c. False)\<rparr>"

definition flaky_env :: env where
  "flaky_env =
     sample_env (replies [Line [], Line '' '', Line [], Line ''junk'', Line ''1,2,3''] (Line []))
       (replies [] (Line ''0'')) 1"

definition silent_env :: env where
  "silent_env = sample_env (replies [] (Raises ''timeout'')) (replies [] (Line ''0'')) 1"

text \<open>
  A step that only talks to the meter: it leaves the source's query count, the loop
  counter, both CSV files and the plot as they are, and adds meter events to the trace.
\<close>

definition meter_step :: "world \<Rightarrow> world \<Rightarrow> bool" where
  "meter_step w w1 =
     (sq w1 = sq w \<and> iter w1 = iter w \<and> csv w1 = csv w \<and> csv4 w1 = csv4 w \<and>
      plot w1 = plot w \<and>
      (\<exists>evs. trace w1 = trace w @ evs \<and> list_all meter_event evs))"

text \<open>A step that only adds events to the trace.\<close>

definition trace_ext :: "world \<Rightarrow> world \<Rightarrow> bool" where
  "trace_ext w w1 = (\<exists>evs. w1 = w\<lparr>trace := trace w @ evs\<rparr>)"

text \<open>
  The scenario of the specification (the meter answers \<open>120.045,1.002,120.28\<close>, the
  source reports 12.01 V, 2.00 A, 24.02 W), and a charge that rises from 8.2 V to 8.4 V
  while the meter reports the current and the power with a negative sign; the clock
  advances by 5 s per loop iteration.
\<close>

definition scenario_env :: env where
  "scenario_env =
     sample_env (replies [] (Line ''120.045,1.002,120.28''))
       (replies [Line ''12.01'', Line ''2.00'', Line ''24.02''] (Line ''0'')) 5"

definition rising_env :: env where
  "rising_env =
     sample_env (replies [Line ''8.2,-1.5,-12.3''] (Line ''8.4,-1.5,-12.6''))
       (replies [] (Line ''12.01'')) 5"

text \<open>
  Sample endpoints: one that answers the identification query with a line, one that
  cannot be opened, one that opens and then times out; and a bench with the meter on
  the second serial device and the source on the second serial VISA resource.
\<close>

definition answering :: "string \<Rightarrow> probe" where
  "answering line = \<lparr>open_raises = False, idn = Idn line, close_raises = False\<rparr>"

definition unopenable :: probe where
  "unopenable = \<lparr>open_raises = True, idn = IdnRaises, close_raises = False\<rparr>"

definition timing_out :: probe where
  "timing_out = \<lparr>open_raises = False, idn = IdnRaises, close_raises = False\<rparr>"

definition sample_bench :: bench where
  "sample_bench =
     \<lparr>serial_devices =
        [(''/dev/ttyUSB0'', answering ''OWON,SPE6103,2303171,FV:V3.3.0''),
         (''/dev/ttyUSB1'', answering ''YOKOGAWA,WT310E,C3XD12345V,F1.03'')],
      connect_raises = False,
      visa_resources =
        [(''USB0::0x0B21::0x0025::INSTR'', answering ''YOKOGAWA,WT310E,C3XD12345V,F1.03''),
         (''ASRL5::INSTR'', timing_out),
         (''ASRL6::INSTR'', answering ''OWON,SPE6103,2303171,FV:V3.3.0'')],
      start_now = 0\<rparr>"

text \<open>
  A meter that reports no data for the current and the power, and a discharging device
  under test on the serial-only script (one reply per item).
\<close>

definition nodata_env :: env where
  "nodata_env =
     sample_env (replies [] (Line ''8.2,nan,nan'')) (replies [] (Line ''12.01'')) 5"

definition discharging_env :: env where
  "discharging_env =
     sample_env (replies [Line ''8.2'', Line ''-1.5'', Line ''-12.3''] (Line ''0''))
       (replies [] (Line ''12.01'')) 5"

text \<open>
  A charged device whose meter reports the current and the power with a negative sign,
  and a meter wired the wrong way round, which reports a negative voltage.
\<close>

definition charged_env :: env where
  "charged_env =
     sample_env (replies [] (Line ''8.4,-1.5,-12.6'')) (replies [] (Line ''12.01'')) 5"

definition reversed_env :: env where
  "reversed_env =
     sample_env (replies [] (Line ''-8.4,-1.5,12.6'')) (replies [] (Line ''12.01'')) 5"


text \<open>
  A candidate matches in \<open>detect_spe6103\<close> when its name passes the filter, it
  opens, and its answer holds one of the markers. A candidate is tidy when it either
  does not open, or answers the query and lets itself be closed.
\<close>

definition spe_match :: "string \<times> probe \<Rightarrow> bool" where
  "spe_match cand =
     (contains ''ASRL'' (fst cand) \<and> contains ''INSTR'' (fst cand) \<and>
      \<not> open_raises (snd cand) \<and>
      (case idn (snd cand) of
         Idn line \<Rightarrow> contains ''SPE'' (strip line) \<or> contains ''6103'' (strip line)
       | IdnRaises \<Rightarrow> False))"

definition tidy :: "string \<times> probe \<Rightarrow> bool" where
  "tidy cand =
     (open_raises (snd cand) \<or> (idn (snd cand) \<noteq> IdnRaises \<and> \<not> close_raises (snd cand)))"

text \<open>
  The events of detection and of the meter's setup: sleeps, opens, closes, writes to
  the meter and queries on a source candidate. A quiet step only adds such events to
  the trace: it writes nothing to the source and touches neither file nor plot.
\<close>

definition probing_event :: "event \<Rightarrow> bool" where
  "probing_event ev =
     (case ev of
        Sleep d \<Rightarrow> True | Opened d \<Rightarrow> True | Closed d \<Rightarrow> True
      | MeterWrite cmd \<Rightarrow> True | SourceQuery cmd \<Rightarrow> True | _ \<Rightarrow> False)"

definition quiet_ext :: "world \<Rightarrow> world \<Rightarrow> bool" where
  "quiet_ext w w1 =
     (\<exists>evs. w1 = w\<lparr>trace := trace w @ evs\<rparr> \<and> list_all probing_event evs)"

text \<open>
  An environment in which the given shutdown calls raise; a bench whose only serial
  VISA resource times out; and two resource lists for the driver, the second with a USB
  device that cannot be opened listed before the meter.
\<close>

definition shutdown_env :: "sd_call list \<Rightarrow> env" where
  "shutdown_env failing =
     (sample_env (replies [] (Line [])) (replies [] (Line [])) 1)
       \<lparr>sd_raises := (\<lambda>c. c \<in> set failing)\<rparr>"

definition nosource_bench :: bench where
  "nosource_bench =
     \<lparr>serial_devices = [(''/dev/ttyUSB1'', answering ''YOKOGAWA,WT310E,C3XD12345V,F1.03'')],
      connect_raises = False,
      visa_resources = [(''ASRL5::INSTR'', timing_out)],
      start_now = 0\<rparr>"

definition meter_only :: "(string \<times> probe) list" where
  "meter_only =
     [(''USB0::0x0B21::0x0025::C3XD12345V::INSTR'', answering ''YOKOGAWA,WT310E,C3XD12345V,F1.03'')]"

definition busy_then_meter :: "(string \<times> probe) list" where
  "busy_then_meter =
     [(''USB0::0x1AB1::0x0E11::DP8C1234::INSTR'', unopenable),
      (''USB0::0x0B21::0x0025::C3XD12345V::INSTR'', answering ''YOKOGAWA,WT310E,C3XD12345V,F1.03'')]"

text \<open>A bench whose serial VISA resource is some other power supply.\<close>

definition foreign_bench :: bench where
  "foreign_bench =
     \<lparr>serial_devices = [(''/dev/ttyUSB1'', answering ''YOKOGAWA,WT310E,C3XD12345V,F1.03'')],
      connect_raises = False,
      visa_resources =
        [(''USB0::0x0B21::0x0025::INSTR'', answering ''YOKOGAWA,WT310E,C3XD12345V,F1.03''),
         (''ASRL5::INSTR'', answering ''RIGOL TECHNOLOGIES,DP832,DP8C1234,00.01.14'')],
      start_now = 0\<rparr>"

section \<open>Parsing a reply of the meter\<close>

lemma split_on_nonempty: "split_on c s \<noteq> []"
  by (induction s) (auto split: list.splits)

lemma split_on_append: "split_on c (a @ c # b) = split_on c a @ split_on c b"
  by (induction a) (auto simp: split_on_nonempty split: list.splits)

lemma strip_Nil: "strip [] = []"
  by (simp add: strip_def)

lemma nonblank_fields_append:
  "nonblank_fields (a @ CHR '','' # b) = nonblank_fields a @ nonblank_fields b"
  by (simp add: nonblank_fields_def split_on_append)

lemma nonblank_fields_Nil: "nonblank_fields [] = []"
  by (simp add: nonblank_fields_def strip_Nil)

lemma nonblank_fields_nonempty: "f \<in> set (nonblank_fields r) \<Longrightarrow> f \<noteq> []"
  by (auto simp: nonblank_fields_def)







lemmas run_strings =
  parse_reply_def nonblank_fields_def strip_def py_isspace_def float_lit_def
  unsigned_lit_def digit_val_def



lemma parse_reply_first_three:
  assumes "3 \<le> length (nonblank_fields r)"
    and "pf (nonblank_fields r ! 0) = Some x"
    and "pf (nonblank_fields r ! 1) = Some y"
    and "pf (nonblank_fields r ! 2) = Some z"
  shows "parse_reply pf r = Inr (x, y, z)"
proof -
  from assms(1) have "r \<noteq> []" by (auto simp: nonblank_fields_Nil)
  with assms show ?thesis by (simp add: parse_reply_def Let_def)
qed

lemma parse_reply_take3:
  assumes "3 \<le> length (nonblank_fields r)" and "3 \<le> length (nonblank_fields r')"
    and "take 3 (nonblank_fields r) = take 3 (nonblank_fields r')"
  shows "parse_reply pf r = parse_reply pf r'"
proof -
  from assms(1) have r: "r \<noteq> []" by (auto simp: nonblank_fields_Nil)
  from assms(2) have r': "r' \<noteq> []" by (auto simp: nonblank_fields_Nil)
  have "nonblank_fields r ! k = nonblank_fields r' ! k" if "k < 3" for k
  proof -
    have "take 3 (nonblank_fields r) ! k = take 3 (nonblank_fields r') ! k"
      using assms(3) by simp
    then show ?thesis using that by simp
  qed
  then have "nonblank_fields r ! 0 = nonblank_fields r' ! 0"
    and "nonblank_fields r ! 1 = nonblank_fields r' ! 1"
    and "nonblank_fields r ! 2 = nonblank_fields r' ! 2"
    by simp_all
  then show ?thesis using assms(1,2) r r'
    by (simp add: parse_reply_def Let_def split: option.splits)
qed

lemma parse_reply_incomplete:
  assumes "length (nonblank_fields r) < 3" and "r \<noteq> []"
  shows "parse_reply pf r = Inl (Incomplete r)"
  using assms by (simp add: parse_reply_def Let_def)

text \<open>
  C9. Blank fields are dropped before the fields are counted: a reply with an empty
  slot has the fields of the reply without it, and no field that is kept is empty. A
  reply with fewer than three fields left is incomplete. With three or more, the result
  is the conversion of the first three and nothing else of the reply matters. So
  \<open>1,,2,3,4\<close> parses to the numbers of \<open>1\<close>, \<open>2\<close> and \<open>3\<close>, and
  \<open>1,,2\<close> is incomplete.
\<close>

theorem blank_fields_dropped_first_three_used:
  "nonblank_fields (a @ '',,'' @ b) = nonblank_fields (a @ '','' @ b)
   \<and> (\<forall>f \<in> set (nonblank_fields r). f \<noteq> [])
   \<and> (length (nonblank_fields r) < 3 \<and> r \<noteq> [] \<longrightarrow> parse_reply pf r = Inl (Incomplete r))
   \<and> (3 \<le> length (nonblank_fields r) \<and> pf (nonblank_fields r ! 0) = Some x \<and>
        pf (nonblank_fields r ! 1) = Some y \<and> pf (nonblank_fields r ! 2) = Some z
        \<longrightarrow> parse_reply pf r = Inr (x, y, z))
   \<and> (3 \<le> length (nonblank_fields r) \<and> 3 \<le> length (nonblank_fields r') \<and>
        take 3 (nonblank_fields r) = take 3 (nonblank_fields r')
        \<longrightarrow> parse_reply pf r = parse_reply pf r')
   \<and> (pf ''1'' = Some x \<and> pf ''2'' = Some y \<and> pf ''3'' = Some z
        \<longrightarrow> parse_reply pf ''1,,2,3,4'' = Inr (x, y, z))
   \<and> parse_reply pf ''1,,2'' = Inl (Incomplete ''1,,2'')"
proof -
  have slot: "nonblank_fields (a @ '',,'' @ b) = nonblank_fields (a @ '','' @ b)"
  proof -
    have "nonblank_fields (a @ CHR '','' # ([] @ CHR '','' # b))
            = nonblank_fields a @ nonblank_fields [] @ nonblank_fields b"
      by (simp only: nonblank_fields_append)
    then show ?thesis by (simp add: nonblank_fields_Nil nonblank_fields_append)
  qed
  have kept: "\<forall>f \<in> set (nonblank_fields r). f \<noteq> []"
    using nonblank_fields_nonempty by blast
  have f5: "nonblank_fields ''1,,2,3,4'' = [''1'', ''2'', ''3'', ''4'']"
    by (simp add: nonblank_fields_def strip_def py_isspace_def)
  have ex1: "parse_reply pf ''1,,2,3,4'' = Inr (x, y, z)"
    if "pf ''1'' = Some x \<and> pf ''2'' = Some y \<and> pf ''3'' = Some z"
    using that by (intro parse_reply_first_three) (simp_all add: f5)
  have ex2: "parse_reply pf ''1,,2'' = Inl (Incomplete ''1,,2'')"
    by (rule parse_reply_incomplete) (simp_all add: nonblank_fields_def strip_def py_isspace_def)
  show ?thesis
    using slot kept ex1 ex2 parse_reply_incomplete[of r pf]
      parse_reply_first_three[of r pf x y z] parse_reply_take3[of r r' pf]
    by blast
qed

theorem blank_fields_dropped_witness:
  "parse_reply float_lit ''1,,2,3,4'' = Inr (Fin 1, Fin 2, Fin 3)
   \<and> parse_reply float_lit ''1,,2'' = Inl (Incomplete ''1,,2'')
   \<and> nonblank_fields ''1,,2,3,junk'' = [''1'', ''2'', ''3'', ''junk'']
   \<and> parse_reply float_lit ''1,,2,3,junk'' = Inr (Fin 1, Fin 2, Fin 3)
   \<and> length (nonblank_fields '',7,'') < 3
   \<and> parse_reply float_lit '',7,'' = Inl (Incomplete '',7,'')"
proof -
  have p: "float_lit ''1'' = Some (Fin 1) \<and> float_lit ''2'' = Some (Fin 2) \<and> float_lit ''3'' = Some (Fin 3)"
    by (simp add: run_strings)
  have j: "nonblank_fields ''1,,2,3,junk'' = [''1'', ''2'', ''3'', ''junk'']"
    by (simp add: nonblank_fields_def strip_def py_isspace_def)
  have s: "length (nonblank_fields '',7,'') < 3"
    by (simp add: nonblank_fields_def strip_def py_isspace_def)
  note t1 = blank_fields_dropped_first_three_used[of _ _ _ float_lit "Fin 1" "Fin 2" "Fin 3"]
  note t2 = blank_fields_dropped_first_three_used[of _ _ "''1,,2,3,junk''" float_lit "Fin 1" "Fin 2" "Fin 3"]
  note t3 = blank_fields_dropped_first_three_used[of _ _ "'',7,''" float_lit]
  have r1: "parse_reply float_lit ''1,,2,3,4'' = Inr (Fin 1, Fin 2, Fin 3)"
    using t1 p by blast
  have r2: "parse_reply float_lit ''1,,2'' = Inl (Incomplete ''1,,2'')"
    using t1 by blast
  have r3: "parse_reply float_lit ''1,,2,3,junk'' = Inr (Fin 1, Fin 2, Fin 3)"
    using t2 p j by simp
  have r4: "parse_reply float_lit '',7,'' = Inl (Incomplete '',7,'')"
    using t3 s by blast
  from r1 r2 j r3 s r4 show ?thesis by blast
qed

section \<open>The retry loop of the meter read\<close>

lemma wt_query_not_ReadFailure: "fst (wt_query e ser cmd w) \<noteq> Inl (ReadFailure d)"
  by (auto simp: wt_query_def Let_def split: option.splits reply.splits)

lemma wt_query_not_ValueError: "fst (wt_query e ser cmd w) \<noteq> Inl (ValueError v)"
  by (auto simp: wt_query_def Let_def split: option.splits reply.splits)

lemma query_nonblank_not_ReadFailure: "fst (query_nonblank n e ser w) \<noteq> Inl (ReadFailure d)"
proof (induction n arbitrary: w)
  case 0
  then show ?case by simp
next
  case (Suc n)
  obtain r w1 where q: "wt_query e ser '':NUM:NORM:VAL?'' w = (r, w1)"
    by (cases "wt_query e ser '':NUM:NORM:VAL?'' w")
  have "r \<noteq> Inl (ReadFailure d)"
    using wt_query_not_ReadFailure[of e ser "'':NUM:NORM:VAL?''" w d] by (simp add: q)
  then show ?case using q Suc.IH by (auto split: sum.splits)
qed

lemma attempt_not_ReadFailure: "fst (attempt e ser w) \<noteq> Inl (ReadFailure d)"
proof -
  obtain r w1 where q:
    "query_nonblank 3 e ser (reset_buffers ser (emit (Sleep STABILIZING_TIME) w)) = (r, w1)"
    by (cases "query_nonblank 3 e ser (reset_buffers ser (emit (Sleep STABILIZING_TIME) w))")
  have "r \<noteq> Inl (ReadFailure d)"
    using query_nonblank_not_ReadFailure[of 3 e ser
        "reset_buffers ser (emit (Sleep STABILIZING_TIME) w)" d]
    by (simp add: q)
  then show ?thesis using q by (auto simp: attempt_def split: sum.splits)
qed

lemma nth_attempt_shift:
  "nth_attempt e ser w (Suc k) = nth_attempt e ser (backoff (snd (attempt e ser w))) k"
  by (induction k) simp_all

lemma nth_attempt_not_ReadFailure: "fst (nth_attempt e ser w k) \<noteq> Inl (ReadFailure d)"
  by (cases k) (simp_all add: attempt_not_ReadFailure)

lemma retry_loop_stops:
  "k < n \<Longrightarrow> \<forall>j<k. retryable (fst (nth_attempt e ser w j)) \<Longrightarrow>
   \<not> retryable (fst (nth_attempt e ser w k)) \<Longrightarrow>
   retry_loop e ser R n le w = nth_attempt e ser w k"
proof (induction n arbitrary: k w le)
  case 0
  then show ?case by simp
next
  case (Suc n)
  obtain r w1 where a: "attempt e ser w = (r, w1)" by (cases "attempt e ser w")
  have nrf: "r \<noteq> Inl (ReadFailure d)" for d
    using attempt_not_ReadFailure[of e ser w d] a by auto
  show ?case
  proof (cases k)
    case 0
    with Suc.prems(3) a have "\<not> retryable r" by simp
    then show ?thesis using 0 a nrf
      by (auto simp: retryable_def split: sum.splits exn.splits)
  next
    case (Suc k')
    from Suc.prems(2) Suc have r0: "retryable r" using a by (auto dest: spec[of _ 0])
    have later: "\<forall>j<k'. retryable (fst (nth_attempt e ser (backoff w1) j))"
    proof (intro allI impI)
      fix j assume "j < k'"
      then have "retryable (fst (nth_attempt e ser w (Suc j)))"
        using Suc.prems(2) Suc by (simp del: nth_attempt.simps)
      then show "retryable (fst (nth_attempt e ser (backoff w1) j))"
        using a by (simp add: nth_attempt_shift del: nth_attempt.simps)
    qed
    have sh: "nth_attempt e ser w k = nth_attempt e ser (backoff w1) k'"
      using a Suc by (simp add: nth_attempt_shift del: nth_attempt.simps)
    have fin: "\<not> retryable (fst (nth_attempt e ser (backoff w1) k'))"
      using Suc.prems(3) sh by simp
    have k': "k' < n" using Suc.prems(1) Suc by simp
    have ih: "retry_loop e ser R n l (backoff w1) = nth_attempt e ser (backoff w1) k'" for l
      using Suc.IH[OF k' later fin] .
    show ?thesis
      apply (subst retry_loop.simps)
      using r0 a ih sh
      by (auto simp: retryable_def simp del: nth_attempt.simps retry_loop.simps
          split: sum.splits exn.splits)
  qed
qed

lemma retry_loop_exhausted:
  "\<forall>j<Suc n. retryable (fst (nth_attempt e ser w j)) \<Longrightarrow>
   retry_loop e ser R (Suc n) le w =
     (Inl (ReadFailure (diag_of R R (fst (nth_attempt e ser w n)))),
      backoff (snd (nth_attempt e ser w n)))"
proof (induction n arbitrary: w le)
  case 0
  then show ?case
    by (cases "attempt e ser w") (auto simp: retryable_def diag_of_def split: sum.splits exn.splits)
next
  case (Suc n)
  obtain r w1 where a: "attempt e ser w = (r, w1)" by (cases "attempt e ser w")
  from Suc.prems have r0: "retryable r" using a by (auto dest: spec[of _ 0])
  have later: "\<forall>j<Suc n. retryable (fst (nth_attempt e ser (backoff w1) j))"
  proof (intro allI impI)
    fix j assume "j < Suc n"
    then have "retryable (fst (nth_attempt e ser w (Suc j)))"
      using Suc.prems by (simp del: nth_attempt.simps)
    then show "retryable (fst (nth_attempt e ser (backoff w1) j))"
      using a by (simp add: nth_attempt_shift del: nth_attempt.simps)
  qed
  have ih: "retry_loop e ser R (Suc n) l (backoff w1) =
     (Inl (ReadFailure (diag_of R R (fst (nth_attempt e ser (backoff w1) n)))),
      backoff (snd (nth_attempt e ser (backoff w1) n)))" for l
    using Suc.IH[OF later] .
  have sh: "nth_attempt e ser w (Suc n) = nth_attempt e ser (backoff w1) n"
    using a by (simp add: nth_attempt_shift del: nth_attempt.simps)
  show ?case
    apply (subst retry_loop.simps)
    using r0 a ih sh
    by (auto simp: retryable_def simp del: nth_attempt.simps retry_loop.simps
        split: sum.splits exn.splits)
qed

lemma retryable_diag: "retryable r \<Longrightarrow> diag_of a n r \<noteq> None"
  by (auto simp: retryable_def diag_of_def split: sum.splits exn.splits)

lemma retry_loop_cases:
  "(\<exists>k<Suc n. (\<forall>j<k. retryable (fst (nth_attempt e ser w j))) \<and>
        \<not> retryable (fst (nth_attempt e ser w k)) \<and>
        retry_loop e ser R (Suc n) le w = nth_attempt e ser w k)
   \<or> ((\<forall>j<Suc n. retryable (fst (nth_attempt e ser w j))) \<and>
       retry_loop e ser R (Suc n) le w =
         (Inl (ReadFailure (diag_of R R (fst (nth_attempt e ser w n)))),
          backoff (snd (nth_attempt e ser w n))))"
proof (cases "\<forall>j<Suc n. retryable (fst (nth_attempt e ser w j))")
  case True
  then show ?thesis using retry_loop_exhausted by blast
next
  case False
  then obtain j0 where j0: "j0 < Suc n" "\<not> retryable (fst (nth_attempt e ser w j0))" by blast
  define k where "k = (LEAST j. \<not> retryable (fst (nth_attempt e ser w j)))"
  have nk: "\<not> retryable (fst (nth_attempt e ser w k))"
    unfolding k_def using j0(2) by (rule LeastI)
  have kle: "k \<le> j0" unfolding k_def using j0(2) by (rule Least_le)
  have before: "\<forall>j<k. retryable (fst (nth_attempt e ser w j))"
    unfolding k_def using not_less_Least by blast
  have "k < Suc n" using kle j0(1) by simp
  then show ?thesis using retry_loop_stops[OF _ before nk] before nk by blast
qed

text \<open>
  C2. The meter read of charging.py with its default bound of five attempts. If the
  first \<open>k\<close> attempts (\<open>k < 5\<close>) end in an error that can be retried (an empty,
  incomplete or non-numeric reply, or an exception of the port) and the next one parses,
  the read returns that triple, in the world of that attempt: each failed attempt was
  followed by one sleep of 0.2 s and no further attempt is made. If all five attempts
  fail, the read raises the RuntimeError with the diagnostic of the fifth attempt,
  after the fifth backoff sleep. In every case the read ends within five attempts.
\<close>

theorem read_wt310e_retries:
  "(\<forall>k<5. (\<forall>j<k. retryable (fst (nth_attempt e ser w j))) \<and>
           fst (nth_attempt e ser w k) = Inr t
        \<longrightarrow> read_wt310e e ser 5 w = (Inr t, snd (nth_attempt e ser w k)))
   \<and> ((\<forall>j<5. retryable (fst (nth_attempt e ser w j)))
        \<longrightarrow> read_wt310e e ser 5 w =
              (Inl (ReadFailure (diag_of 5 5 (fst (nth_attempt e ser w 4)))),
               backoff (snd (nth_attempt e ser w 4)))
            \<and> diag_of 5 5 (fst (nth_attempt e ser w 4)) \<noteq> None)
   \<and> ((\<exists>k<5. read_wt310e e ser 5 w = nth_attempt e ser w k)
        \<or> read_wt310e e ser 5 w =
              (Inl (ReadFailure (diag_of 5 5 (fst (nth_attempt e ser w 4)))),
               backoff (snd (nth_attempt e ser w 4))))
   \<and> trace (backoff w') = trace w' @ [Sleep (1 / 5)]"
proof (intro conjI allI impI)
  fix k
  assume k: "k < 5"
    and h: "(\<forall>j<k. retryable (fst (nth_attempt e ser w j))) \<and> fst (nth_attempt e ser w k) = Inr t"
  then have nr: "\<not> retryable (fst (nth_attempt e ser w k))"
    by (simp add: retryable_def)
  have "retry_loop e ser 5 5 None w = nth_attempt e ser w k"
    using retry_loop_stops[OF k _ nr] h by blast
  then show "read_wt310e e ser 5 w = (Inr t, snd (nth_attempt e ser w k))"
    using h by (simp add: read_wt310e_def prod_eq_iff)
next
  assume all: "\<forall>j<5. retryable (fst (nth_attempt e ser w j))"
  have five: "(5::nat) = Suc 4" by simp
  have "retry_loop e ser 5 (Suc 4) None w =
          (Inl (ReadFailure (diag_of 5 5 (fst (nth_attempt e ser w 4)))),
           backoff (snd (nth_attempt e ser w 4)))"
    using all by (intro retry_loop_exhausted) simp
  then show "read_wt310e e ser 5 w =
          (Inl (ReadFailure (diag_of 5 5 (fst (nth_attempt e ser w 4)))),
           backoff (snd (nth_attempt e ser w 4)))"
    by (simp add: read_wt310e_def)
  show "diag_of 5 5 (fst (nth_attempt e ser w 4)) \<noteq> None"
    using all by (intro retryable_diag) simp
next
  have five: "(5::nat) = Suc 4" by simp
  show "(\<exists>k<5. read_wt310e e ser 5 w = nth_attempt e ser w k)
        \<or> read_wt310e e ser 5 w =
              (Inl (ReadFailure (diag_of 5 5 (fst (nth_attempt e ser w 4)))),
               backoff (snd (nth_attempt e ser w 4)))"
    using retry_loop_cases[of 4 e ser w 5 None]
    unfolding read_wt310e_def five[symmetric] by blast
next
  show "trace (backoff w') = trace w' @ [Sleep (1 / 5)]"
    by (simp add: backoff_def emit_def)
qed

lemma below_five: "(\<forall>j<5. P j) \<longleftrightarrow> P 0 \<and> P 1 \<and> P 2 \<and> P 3 \<and> P (4::nat)"
proof -
  have "j < 5 \<longleftrightarrow> j = 0 \<or> j = 1 \<or> j = 2 \<or> j = 3 \<or> j = 4" for j :: nat by arith
  then show ?thesis by auto
qed

lemma below_two: "(\<forall>j<2. P j) \<longleftrightarrow> P 0 \<and> P (1::nat)"
proof -
  have "j < 2 \<longleftrightarrow> j = 0 \<or> j = 1" for j :: nat by arith
  then show ?thesis by auto
qed

theorem read_wt310e_retries_witness:
  "retryable (fst (nth_attempt flaky_env (Some ''/dev/ttyUSB0'') world0 0))
   \<and> retryable (fst (nth_attempt flaky_env (Some ''/dev/ttyUSB0'') world0 1))
   \<and> fst (nth_attempt flaky_env (Some ''/dev/ttyUSB0'') world0 2) = Inr (Fin 1, Fin 2, Fin 3)
   \<and> fst (read_wt310e flaky_env (Some ''/dev/ttyUSB0'') 5 world0) = Inr (Fin 1, Fin 2, Fin 3)
   \<and> fst (read_wt310e silent_env (Some ''/dev/ttyUSB0'') 5 world0)
       = Inl (ReadFailure (Some (CommDiag 5 5 ''timeout'')))"
proof -
  have f0: "retryable (fst (nth_attempt flaky_env (Some ''/dev/ttyUSB0'') world0 0))"
    by code_simp
  have f1: "retryable (fst (nth_attempt flaky_env (Some ''/dev/ttyUSB0'') world0 1))"
    by code_simp
  have f2: "fst (nth_attempt flaky_env (Some ''/dev/ttyUSB0'') world0 2) = Inr (Fin 1, Fin 2, Fin 3)"
    by code_simp
  have s0: "retryable (fst (nth_attempt silent_env (Some ''/dev/ttyUSB0'') world0 0))"
    by code_simp
  have s1: "retryable (fst (nth_attempt silent_env (Some ''/dev/ttyUSB0'') world0 1))"
    by code_simp
  have s2: "retryable (fst (nth_attempt silent_env (Some ''/dev/ttyUSB0'') world0 2))"
    by code_simp
  have s3: "retryable (fst (nth_attempt silent_env (Some ''/dev/ttyUSB0'') world0 3))"
    by code_simp
  have s4: "retryable (fst (nth_attempt silent_env (Some ''/dev/ttyUSB0'') world0 4))"
    by code_simp
  have d: "diag_of 5 5 (fst (nth_attempt silent_env (Some ''/dev/ttyUSB0'') world0 4))
             = Some (CommDiag 5 5 ''timeout'')"
    by code_simp
  have fl: "\<forall>j<2. retryable (fst (nth_attempt flaky_env (Some ''/dev/ttyUSB0'') world0 j))"
    using f0 f1 by (simp add: below_two)
  have sl: "\<forall>j<5. retryable (fst (nth_attempt silent_env (Some ''/dev/ttyUSB0'') world0 j))"
    using s0 s1 s2 s3 s4 by (simp add: below_five)
  note a = read_wt310e_retries[of flaky_env "Some ''/dev/ttyUSB0''" world0 "(Fin 1, Fin 2, Fin 3)"]
  note b = read_wt310e_retries[of silent_env "Some ''/dev/ttyUSB0''" world0]
  have two: "(2::nat) < 5" by simp
  from a fl f2 two have r1:
    "read_wt310e flaky_env (Some ''/dev/ttyUSB0'') 5 world0
       = (Inr (Fin 1, Fin 2, Fin 3), snd (nth_attempt flaky_env (Some ''/dev/ttyUSB0'') world0 2))"
    by blast
  from b sl have r2:
    "read_wt310e silent_env (Some ''/dev/ttyUSB0'') 5 world0
       = (Inl (ReadFailure (diag_of 5 5 (fst (nth_attempt silent_env (Some ''/dev/ttyUSB0'') world0 4)))),
          backoff (snd (nth_attempt silent_env (Some ''/dev/ttyUSB0'') world0 4)))"
    by blast
  show ?thesis using f0 f1 f2 r1 r2 d by simp
qed

section \<open>What a meter read and a row leave behind\<close>

lemma meter_step_refl: "meter_step w w"
  by (simp add: meter_step_def)

lemma meter_step_trans: "meter_step w w1 \<Longrightarrow> meter_step w1 w2 \<Longrightarrow> meter_step w w2"
  by (auto simp: meter_step_def)

lemma meter_step_emit: "meter_event ev \<Longrightarrow> meter_step w (emit ev w)"
  by (simp add: meter_step_def emit_def)

lemma meter_step_sleep: "meter_step w (emit (Sleep d) w)"
  by (rule meter_step_emit) (simp add: meter_event_def)

lemma meter_step_backoff: "meter_step w (backoff w)"
  unfolding backoff_def by (rule meter_step_sleep)

lemma meter_step_reset: "meter_step w (reset_buffers ser w)"
  by (cases ser) (simp_all add: reset_buffers_def meter_step_refl meter_step_emit meter_event_def)

lemma wt_query_step: "meter_step w (snd (wt_query e ser cmd w))"
  by (auto simp: wt_query_def meter_step_def emit_def meter_event_def Let_def
      split: option.splits reply.splits)

lemma query_nonblank_step: "meter_step w (snd (query_nonblank n e ser w))"
proof (induction n arbitrary: w)
  case 0
  then show ?case by (simp add: meter_step_refl)
next
  case (Suc n)
  obtain r w1 where q: "wt_query e ser '':NUM:NORM:VAL?'' w = (r, w1)"
    by (cases "wt_query e ser '':NUM:NORM:VAL?'' w")
  have s1: "meter_step w w1" using wt_query_step[of w e ser "'':NUM:NORM:VAL?''"] by (simp add: q)
  have s2: "meter_step w (emit (Sleep (1 / 20)) w1)"
    using s1 meter_step_sleep meter_step_trans by blast
  have s3: "meter_step w (snd (query_nonblank n e ser (emit (Sleep (1 / 20)) w1)))"
    using s2 Suc.IH meter_step_trans by blast
  show ?case using q s1 s3 by (auto split: sum.splits)
qed

lemma attempt_step: "meter_step w (snd (attempt e ser w))"
proof -
  let ?w0 = "reset_buffers ser (emit (Sleep STABILIZING_TIME) w)"
  have a: "meter_step w ?w0"
    using meter_step_sleep meter_step_reset meter_step_trans by blast
  have b: "meter_step w (snd (query_nonblank 3 e ser ?w0))"
    using a query_nonblank_step meter_step_trans by blast
  obtain r w1 where q: "query_nonblank 3 e ser ?w0 = (r, w1)"
    by (cases "query_nonblank 3 e ser ?w0")
  show ?thesis using b q by (auto simp: attempt_def split: sum.splits)
qed

lemma retry_loop_step: "meter_step w (snd (retry_loop e ser R n le w))"
proof (induction n arbitrary: w le)
  case 0
  then show ?case by (simp add: meter_step_refl)
next
  case (Suc n)
  obtain r w1 where a: "attempt e ser w = (r, w1)" by (cases "attempt e ser w")
  have s1: "meter_step w w1" using attempt_step[of w e ser] by (simp add: a)
  have s2: "meter_step w (backoff w1)" using s1 meter_step_backoff meter_step_trans by blast
  have s3: "meter_step w (snd (retry_loop e ser R n l (backoff w1)))" for l
    using s2 Suc.IH meter_step_trans by blast
  show ?case using a s1 s3 by (auto split: sum.splits exn.splits)
qed

lemma read_wt310e_step: "meter_step w (snd (read_wt310e e ser n w))"
  unfolding read_wt310e_def by (rule retry_loop_step)

lemma dc_query_float_Inr:
  assumes "dc_query_float e cmd w = (Inr x, w1)"
  shows "\<exists>l. source_reply e (sq w) = Line l \<and> to_float e l = Some x \<and>
             w1 = emit (SourceQuery cmd) (w\<lparr>sq := sq w + 1\<rparr>)"
  using assms by (auto simp: dc_query_float_def Let_def split: reply.splits option.splits)

lemma dc_query_float_Inl:
  assumes "dc_query_float e cmd w = (Inl x, w1)"
  shows "w1 = emit (SourceQuery cmd) (w\<lparr>sq := sq w + 1\<rparr>)"
  using assms by (auto simp: dc_query_float_def Let_def split: reply.splits option.splits)

text \<open>
  A row that was logged: the meter gave \<open>(Ov, Oc, Op)\<close>, the three source queries
  gave \<open>Iv\<close>, \<open>Ic\<close>, \<open>Ip\<close>, and the row, the plot point and the trace are
  as follows.
\<close>

lemma log_row_Inr:
  assumes "log_row e ser start_time w = (Inr v, w')"
  shows "\<exists>Oc Op wr l1 l2 l3 Iv Ic Ip r.
           read_wt310e e ser 5 w = (Inr (v, Oc, Op), wr) \<and>
           source_reply e (sq w) = Line l1 \<and> to_float e l1 = Some Iv \<and>
           source_reply e (sq w + 1) = Line l2 \<and> to_float e l2 = Some Ic \<and>
           source_reply e (sq w + 2) = Line l3 \<and> to_float e l3 = Some Ip \<and>
           r = \<lparr>timestamp = row_now e (iter w), input_voltage = Iv, input_current = Ic,
                input_power = Ip, output_voltage = v, output_current = fabs Oc,
                output_power = fabs Op\<rparr> \<and>
           csv w' = csv w @ [r] \<and> csv4 w' = csv4 w \<and> iter w' = iter w \<and>
           sq w' = sq w + 3 \<and> mq w' = mq wr \<and>
           plot w' = plot w @ [(plot_now e (iter w) - start_time, v, fabs Oc)] \<and>
           trace w' = trace wr @ [SourceQuery ''MEAS:VOLT?'', SourceQuery ''MEAS:CURR?'',
                                  SourceQuery ''MEAS:POW?'', CsvRow r,
                                  PlotPoint (plot_now e (iter w) - start_time) v (fabs Oc)]"
proof -
  obtain rr wr where rd: "read_wt310e e ser 5 w = (rr, wr)" by (cases "read_wt310e e ser 5 w")
  from assms rd obtain Oc Op where rr: "rr = Inr (v, Oc, Op)"
    by (auto simp: log_row_def Let_def split: sum.splits prod.splits)
  have st: "meter_step w wr" using read_wt310e_step[of w e ser 5] by (simp add: rd)
  obtain q1 w2 where d1: "dc_query_float e ''MEAS:VOLT?'' wr = (q1, w2)"
    by (cases "dc_query_float e ''MEAS:VOLT?'' wr")
  from assms rd rr d1 obtain Iv where q1: "q1 = Inr Iv"
    by (auto simp: log_row_def Let_def split: sum.splits prod.splits)
  obtain q2 w3 where d2: "dc_query_float e ''MEAS:CURR?'' w2 = (q2, w3)"
    by (cases "dc_query_float e ''MEAS:CURR?'' w2")
  from assms rd rr d1 q1 d2 obtain Ic where q2: "q2 = Inr Ic"
    by (auto simp: log_row_def Let_def split: sum.splits prod.splits)
  obtain q3 w4 where d3: "dc_query_float e ''MEAS:POW?'' w3 = (q3, w4)"
    by (cases "dc_query_float e ''MEAS:POW?'' w3")
  from assms rd rr d1 q1 d2 q2 d3 obtain Ip where q3: "q3 = Inr Ip"
    by (auto simp: log_row_def Let_def split: sum.splits prod.splits)
  from dc_query_float_Inr[OF d1[unfolded q1]] obtain l1 where
    l1: "source_reply e (sq wr) = Line l1" "to_float e l1 = Some Iv"
      "w2 = emit (SourceQuery ''MEAS:VOLT?'') (wr\<lparr>sq := sq wr + 1\<rparr>)" by blast
  from dc_query_float_Inr[OF d2[unfolded q2]] obtain l2 where
    l2: "source_reply e (sq w2) = Line l2" "to_float e l2 = Some Ic"
      "w3 = emit (SourceQuery ''MEAS:CURR?'') (w2\<lparr>sq := sq w2 + 1\<rparr>)" by blast
  from dc_query_float_Inr[OF d3[unfolded q3]] obtain l3 where
    l3: "source_reply e (sq w3) = Line l3" "to_float e l3 = Some Ip"
      "w4 = emit (SourceQuery ''MEAS:POW?'') (w3\<lparr>sq := sq w3 + 1\<rparr>)" by blast
  have sqs: "sq wr = sq w" "sq w2 = sq w + 1" "sq w3 = sq w + 2" "sq w4 = sq w + 3"
    using st l1(3) l2(3) l3(3) by (simp_all add: meter_step_def emit_def)
  have its: "iter w4 = iter w" "csv w4 = csv w" "csv4 w4 = csv4 w" "plot w4 = plot w"
    "mq w4 = mq wr"
    using st l1(3) l2(3) l3(3) by (simp_all add: meter_step_def emit_def)
  have tr4: "trace w4 = trace wr @ [SourceQuery ''MEAS:VOLT?'', SourceQuery ''MEAS:CURR?'',
                                  SourceQuery ''MEAS:POW?'']"
    using l1(3) l2(3) l3(3) by (simp add: emit_def)
  define r where "r = \<lparr>timestamp = row_now e (iter w), input_voltage = Iv, input_current = Ic,
                input_power = Ip, output_voltage = v, output_current = fabs Oc,
                output_power = fabs Op\<rparr>"
  have w': "w' = update_plot (plot_now e (iter w) - start_time) v (fabs Oc) (append_row r w4)"
    using assms rd rr d1 q1 d2 q2 d3 q3 its(1)
    by (simp add: log_row_def Let_def r_def append_row_def emit_def)
  have fin: "csv w' = csv w @ [r]" "csv4 w' = csv4 w" "iter w' = iter w" "sq w' = sq w + 3"
    "mq w' = mq wr"
    "plot w' = plot w @ [(plot_now e (iter w) - start_time, v, fabs Oc)]"
    "trace w' = trace wr @ [SourceQuery ''MEAS:VOLT?'', SourceQuery ''MEAS:CURR?'',
                                  SourceQuery ''MEAS:POW?'', CsvRow r,
                                  PlotPoint (plot_now e (iter w) - start_time) v (fabs Oc)]"
    using its sqs tr4 by (simp_all add: w' update_plot_def append_row_def emit_def)
  show ?thesis
    using rd rr l1(1,2) l2(1,2) l3(1,2) sqs fin r_def by (simp add: add.commute)
qed

text \<open>A row that failed: nothing was appended to the CSV file or to the plot.\<close>

lemma log_row_Inl:
  assumes "log_row e ser start_time w = (Inl x, w')"
  shows "csv w' = csv w \<and> csv4 w' = csv4 w \<and> plot w' = plot w \<and> iter w' = iter w \<and>
         (\<exists>evs. trace w' = trace w @ evs \<and> (\<forall>r. CsvRow r \<notin> set evs))"
proof -
  obtain rr wr where rd: "read_wt310e e ser 5 w = (rr, wr)" by (cases "read_wt310e e ser 5 w")
  have st: "meter_step w wr" using read_wt310e_step[of w e ser 5] by (simp add: rd)
  then obtain evs where evs: "trace wr = trace w @ evs" "list_all meter_event evs"
    by (auto simp: meter_step_def)
  have nocsv: "CsvRow r \<notin> set evs" for r
    using evs(2) by (auto simp: list_all_iff meter_event_def)
  have base: "csv wr = csv w \<and> csv4 wr = csv4 w \<and> plot wr = plot w \<and> iter wr = iter w"
    using st by (simp add: meter_step_def)
  have q: "dc_query_float e cmd u = (y, u') \<Longrightarrow>
        u' = emit (SourceQuery cmd) (u\<lparr>sq := sq u + 1\<rparr>)" for cmd u y u'
    by (auto simp: dc_query_float_def Let_def split: reply.splits option.splits)
  show ?thesis
  proof (cases rr)
    case (Inl y)
    with assms rd have "w' = wr" by (simp add: log_row_def)
    then show ?thesis using base evs nocsv by auto
  next
    case (Inr t)
    obtain Ov Oc Op where t: "t = (Ov, Oc, Op)" by (cases t)
    obtain q1 w2 where d1: "dc_query_float e ''MEAS:VOLT?'' wr = (q1, w2)"
      by (cases "dc_query_float e ''MEAS:VOLT?'' wr")
    obtain q2 w3 where d2: "dc_query_float e ''MEAS:CURR?'' w2 = (q2, w3)"
      by (cases "dc_query_float e ''MEAS:CURR?'' w2")
    obtain q3 w4 where d3: "dc_query_float e ''MEAS:POW?'' w3 = (q3, w4)"
      by (cases "dc_query_float e ''MEAS:POW?'' w3")
    note ws = q[OF d1] q[OF d2] q[OF d3]
    have "w' = w2 \<or> w' = w3 \<or> w' = w4"
      using assms rd Inr t d1 d2 d3
      by (auto simp: log_row_def Let_def split: sum.splits)
    then show ?thesis
    proof (elim disjE)
      assume "w' = w2"
      then show ?thesis using base evs nocsv ws(1)
        by (auto simp: emit_def)
    next
      assume "w' = w3"
      then show ?thesis using base evs nocsv ws(1,2)
        by (auto simp: emit_def)
    next
      assume "w' = w4"
      then show ?thesis using base evs nocsv ws
        by (auto simp: emit_def)
    qed
  qed
qed

section \<open>The polling loop\<close>

lemma loop_sleep_Inr:
  "loop_sleep e d w = Inr w2 \<Longrightarrow> w2 = (emit (Sleep d) w)\<lparr>iter := iter w + 1\<rparr>"
  by (auto simp: loop_sleep_def split: if_splits)

lemma loop_sleep_csv: "loop_sleep e d w = Inr w2 \<Longrightarrow> csv w2 = csv w"
  by (auto dest: loop_sleep_Inr simp: emit_def)

lemma log_row_order:
  assumes "log_row e ser start_time w = (Inr v, w1)"
  shows "\<exists>evs r el cur.
           list_all meter_event evs \<and> output_voltage r = v \<and> csv w1 = csv w @ [r] \<and>
           trace w1 = trace w @ evs @
             [SourceQuery ''MEAS:VOLT?'', SourceQuery ''MEAS:CURR?'', SourceQuery ''MEAS:POW?'',
              CsvRow r, PlotPoint el v cur]"
proof -
  from log_row_Inr[OF assms] obtain Oc Op wr l1 l2 l3 Iv Ic Ip r where
    f0: "read_wt310e e ser 5 w = (Inr (v, Oc, Op), wr)"
      "r = \<lparr>timestamp = row_now e (iter w), input_voltage = Iv, input_current = Ic,
                input_power = Ip, output_voltage = v, output_current = fabs Oc,
                output_power = fabs Op\<rparr>"
      "csv w1 = csv w @ [r]"
      "trace w1 = trace wr @ [SourceQuery ''MEAS:VOLT?'', SourceQuery ''MEAS:CURR?'',
                 SourceQuery ''MEAS:POW?'', CsvRow r,
                 PlotPoint (plot_now e (iter w) - start_time) v (fabs Oc)]"
    by blast
  define el where "el = plot_now e (iter w) - start_time"
  define cur where "cur = fabs Oc"
  have f: "read_wt310e e ser 5 w = (Inr (v, Oc, Op), wr)" "output_voltage r = v"
      "csv w1 = csv w @ [r]"
      "trace w1 = trace wr @ [SourceQuery ''MEAS:VOLT?'', SourceQuery ''MEAS:CURR?'',
                 SourceQuery ''MEAS:POW?'', CsvRow r, PlotPoint el v cur]"
    using f0 by (simp_all add: el_def cur_def)
  have "meter_step w wr" using read_wt310e_step[of w e ser 5] by (simp add: f(1))
  then obtain evs where "trace wr = trace w @ evs" "list_all meter_event evs"
    by (auto simp: meter_step_def)
  then show ?thesis using f by auto
qed


lemma poll_loop_stop:
  assumes "poll_loop fuel e c ser start_time next_log_time w = Some (StopReached, w')"
  shows "\<exists>rows r tr el cur.
           csv w' = csv w @ rows @ [r] \<and>
           (\<forall>r' \<in> set rows. \<not> fge (output_voltage r') (stop_voltage c)) \<and>
           fge (output_voltage r) (stop_voltage c) \<and>
           trace w' = tr @ [CsvRow r, PlotPoint el (output_voltage r) cur]"
  using assms
proof (induction fuel arbitrary: next_log_time w)
  case 0
  then show ?case by simp
next
  case (Suc fuel)
  show ?case
  proof (cases "next_log_time \<le> loop_now e (iter w)")
    case due: True
    obtain lr w1 where lg: "log_row e ser start_time w = (lr, w1)"
      by (cases "log_row e ser start_time w")
    show ?thesis
    proof (cases lr)
      case (Inl x)
      with Suc.prems due lg show ?thesis by simp
    next
      case (Inr v)
      from log_row_order[OF lg[unfolded Inr]] obtain evs r el cur where
        r: "csv w1 = csv w @ [r]" "output_voltage r = v"
          "trace w1 = trace w @ evs @
             [SourceQuery ''MEAS:VOLT?'', SourceQuery ''MEAS:CURR?'', SourceQuery ''MEAS:POW?'',
              CsvRow r, PlotPoint el v cur]"
        by blast
      have r3: "trace w1 = (trace w @ evs @
             [SourceQuery ''MEAS:VOLT?'', SourceQuery ''MEAS:CURR?'', SourceQuery ''MEAS:POW?''])
             @ [CsvRow r, PlotPoint el (output_voltage r) cur]"
        using r(2,3) by simp
      show ?thesis
      proof (cases "fge v (stop_voltage c)")
        case True
        with Suc.prems due lg Inr have "w' = w1" by simp
        then have "csv w' = csv w @ [] @ [r]"
          and "\<forall>r' \<in> set []. \<not> fge (output_voltage r') (stop_voltage c)"
          and "fge (output_voltage r) (stop_voltage c)"
          and "trace w' = (trace w @ evs @
             [SourceQuery ''MEAS:VOLT?'', SourceQuery ''MEAS:CURR?'', SourceQuery ''MEAS:POW?''])
             @ [CsvRow r, PlotPoint el (output_voltage r) cur]"
          using r(1,2) r3 True by simp_all
        then show ?thesis by blast
      next
        case False
        then obtain w2 where sl: "loop_sleep e (1 / 10) w1 = Inr w2"
          and rest: "poll_loop fuel e c ser start_time (next_log_time + log_interval c) w2
                      = Some (StopReached, w')"
          using Suc.prems due lg Inr by (auto split: sum.splits)
        from Suc.IH[OF rest] obtain rows r2 tr el2 cur2 where
          ih: "csv w' = csv w2 @ rows @ [r2]"
            "\<forall>r' \<in> set rows. \<not> fge (output_voltage r') (stop_voltage c)"
            "fge (output_voltage r2) (stop_voltage c)"
            "trace w' = tr @ [CsvRow r2, PlotPoint el2 (output_voltage r2) cur2]"
          by blast
        have "csv w' = csv w @ (r # rows) @ [r2]"
          using ih(1) loop_sleep_csv[OF sl] r(1) by simp
        moreover have "\<forall>r' \<in> set (r # rows). \<not> fge (output_voltage r') (stop_voltage c)"
          using ih(2) False r(2) by simp
        ultimately show ?thesis using ih(3,4) by blast
      qed
    qed
  next
    case False
    then obtain w2 where sl: "loop_sleep e (1 / 10) w = Inr w2"
      and rest: "poll_loop fuel e c ser start_time next_log_time w2 = Some (StopReached, w')"
      using Suc.prems by (auto split: sum.splits)
    from Suc.IH[OF rest] loop_sleep_csv[OF sl] show ?thesis by simp
  qed
qed

lemma poll_loop_tick_stops:
  assumes "next_log_time \<le> loop_now e (iter w)"
    and "log_row e ser start_time w = (Inr v, w1)"
    and "fge v (stop_voltage c)"
  shows "poll_loop (Suc fuel) e c ser start_time next_log_time w = Some (StopReached, w1)"
  using assms by simp

section \<open>Steps that only add to the trace\<close>

lemma trace_ext_refl: "trace_ext w w"
  by (auto simp: trace_ext_def intro: exI[of _ "[]"])

lemma trace_ext_trans: "trace_ext w w1 \<Longrightarrow> trace_ext w1 w2 \<Longrightarrow> trace_ext w w2"
  by (auto simp: trace_ext_def)

lemma trace_ext_emit: "trace_ext w (emit ev w)"
  by (auto simp: trace_ext_def emit_def)

lemma trace_ext_emits: "trace_ext w (emits evs w)"
  by (auto simp: trace_ext_def emits_def)

lemma trace_ext_fields:
  "trace_ext w w1 \<Longrightarrow>
     csv w1 = csv w \<and> csv4 w1 = csv4 w \<and> plot w1 = plot w \<and> iter w1 = iter w \<and>
     mq w1 = mq w \<and> sq w1 = sq w \<and> (\<exists>evs. trace w1 = trace w @ evs)"
  by (auto simp: trace_ext_def)

lemma detect_wt310e_ext: "trace_ext w (snd (detect_wt310e ds w))"
proof (induction ds w rule: detect_wt310e.induct)
  case (1 w)
  then show ?case by (simp add: trace_ext_refl)
next
  case (2 dev p rest w)
  note e1 = trace_ext_emit[of w "Opened dev"]
  note e2 = trace_ext_emits[of w "[Opened dev, MeterWrite ''*IDN?'', Sleep (3 / 10)]"]
  note e3 = trace_ext_emits[of w "[Opened dev, MeterWrite ''*IDN?'', Sleep (3 / 10), Closed dev]"]
  show ?case
    using 2 e1 e2 e3
    by (auto split: idn_result.splits intro: trace_ext_trans)
qed

lemma detect_spe6103_ext: "trace_ext w (snd (detect_spe6103 rs w))"
proof (induction rs w rule: detect_spe6103.induct)
  case (1 w)
  then show ?case by (simp add: trace_ext_refl)
next
  case (2 res p rest w)
  note e1 = trace_ext_emit[of w "Opened res"]
  note e2 = trace_ext_emits[of w "[Opened res, SourceQuery ''*IDN?'']"]
  note e3 = trace_ext_emits[of w "[Opened res, SourceQuery ''*IDN?'', Closed res]"]
  show ?case
    using 2 e1 e2 e3
    by (auto split: idn_result.splits intro: trace_ext_trans)
qed

lemma find_meter_ext: "trace_ext w (snd (find_meter b w))"
proof -
  obtain port w1 where d: "detect_wt310e (serial_devices b) w = (port, w1)"
    by (cases "detect_wt310e (serial_devices b) w")
  have s1: "trace_ext w w1" using detect_wt310e_ext[of w "serial_devices b"] by (simp add: d)
  have s2: "trace_ext w (emit (Sleep (1 / 2)) w1)"
    using s1 trace_ext_emit trace_ext_trans by blast
  have s3: "trace_ext w (emits evs (emit (Sleep (1 / 2)) w1))" for evs
    using s2 trace_ext_emits trace_ext_trans by blast
  have s4: "trace_ext w (setup_wt310e (emits evs (emit (Sleep (1 / 2)) w1)))" for evs
    unfolding setup_wt310e_def using s3 trace_ext_emits trace_ext_trans by blast
  show ?thesis
    using d s2 s3 s4
    by (auto simp: find_meter_def connect_wt310e_def split: option.splits)
qed

lemma enable_source_ext: "trace_ext w (enable_source c w)"
  unfolding enable_source_def by (rule trace_ext_emits)

lemma try_calls_trace: "\<exists>cs'. trace (snd (try_calls e cs w)) = trace w @ map Shutdown cs' \<and>
    snd (try_calls e cs w) = w\<lparr>trace := trace w @ map Shutdown cs'\<rparr>"
proof (induction cs arbitrary: w)
  case Nil
  then show ?case by simp
next
  case (Cons c cs)
  show ?case
  proof (cases "sd_raises e c")
    case True
    then show ?thesis by (auto simp: emit_def intro: exI[of _ "[c]"])
  next
    case False
    from Cons.IH[of "emit (Shutdown c) w"] obtain cs' where
      "snd (try_calls e cs (emit (Shutdown c) w))
         = (emit (Shutdown c) w)\<lparr>trace := trace (emit (Shutdown c) w) @ map Shutdown cs'\<rparr>"
      by blast
    then show ?thesis using False by (auto simp: emit_def intro: exI[of _ "c # cs'"])
  qed
qed

lemma guarded_ext: "trace_ext w (guarded e cs w)"
  using try_calls_trace[of e cs w] by (auto simp: trace_ext_def guarded_def)

lemma charging_shutdown_ext: "trace_ext w (charging_shutdown e ser w)"
proof -
  have a: "trace_ext w (guarded e [OutpOff] w)" by (rule guarded_ext)
  have b: "trace_ext w (guarded e [DcClose, RmClose] (guarded e [OutpOff] w))"
    using a guarded_ext trace_ext_trans by blast
  let ?w2 = "guarded e [DcClose, RmClose] (guarded e [OutpOff] w)"
  have c: "trace_ext w (case ser of None \<Rightarrow> ?w2 | Some port \<Rightarrow> guarded e [SerClose] ?w2)"
    using b guarded_ext trace_ext_trans by (cases ser) auto
  show ?thesis
    unfolding charging_shutdown_def Let_def
    using c guarded_ext trace_ext_emit trace_ext_trans by blast
qed

lemma world0_fields: "csv world0 = [] \<and> csv4 world0 = [] \<and> plot world0 = [] \<and> trace world0 = []"
  by (simp add: world0_def)

text \<open>The world in which the polling loop of a run starts, when the source was found.\<close>

lemma charging_main_Ended:
  assumes "charging_main fuel e b c = Some (Ended ex, w')"
  shows "\<exists>ser w0 w1. trace_ext world0 w0 \<and>
           poll_loop fuel e c ser (start_now b) (start_now b) w0 = Some (ex, w1) \<and>
           w' = charging_shutdown e ser w1 \<and> ser = fst (find_meter b world0)"
proof -
  obtain ser wa where fm: "find_meter b world0 = (ser, wa)" by (cases "find_meter b world0")
  obtain dc wb where ds: "detect_spe6103 (visa_resources b) wa = (dc, wb)"
    by (cases "detect_spe6103 (visa_resources b) wa")
  have a: "trace_ext world0 wa" using find_meter_ext[of world0 b] by (simp add: fm)
  have b: "trace_ext world0 wb"
  proof -
    have "trace_ext wa wb" using detect_spe6103_ext[of wa "visa_resources b"] by (simp add: ds)
    then show ?thesis using a trace_ext_trans by blast
  qed
  have c: "trace_ext world0 (enable_source c (emit (Sleep (1 / 2)) wb))"
    using b trace_ext_emit enable_source_ext trace_ext_trans by blast
  from assms fm ds obtain res where dc: "dc = Some res"
    by (cases dc) (auto simp: charging_main_def)
  from assms fm ds dc obtain w1 where
    "poll_loop fuel e c ser (start_now b) (start_now b) (enable_source c (emit (Sleep (1 / 2)) wb))
       = Some (ex, w1)" "w' = charging_shutdown e ser w1"
    by (auto simp: charging_main_def split: option.splits)
  then show ?thesis using c fm by auto
qed

text \<open>
  C1. In the Running state of charging.py a tick that logs a row has read the meter,
  then queried the source three times, then appended the row with the absolute values
  to the CSV file, then added the plot point; only after that is the returned voltage
  compared with the stop voltage, and a voltage at or above it ends the loop at once
  with the row already in the file. So a loop that ends on the threshold has logged
  rows below the threshold (a comparison that is false) and then one row at or above
  it, the row and its plot point being the last things it did; and in a whole run that
  row is the last row of the file and is written before the shutdown block starts.
\<close>

theorem stop_after_row_is_persisted:
  "(log_row e ser start_time w = (Inr v, w1) \<longrightarrow>
      (\<exists>evs r el cur.
         list_all meter_event evs \<and> output_voltage r = v \<and> csv w1 = csv w @ [r] \<and>
         trace w1 = trace w @ evs @
           [SourceQuery ''MEAS:VOLT?'', SourceQuery ''MEAS:CURR?'', SourceQuery ''MEAS:POW?'',
            CsvRow r, PlotPoint el v cur]))
   \<and> (next_log_time \<le> loop_now e (iter w) \<and> log_row e ser start_time w = (Inr v, w1) \<and>
        fge v (stop_voltage c)
        \<longrightarrow> poll_loop (Suc fuel) e c ser start_time next_log_time w = Some (StopReached, w1))
   \<and> (poll_loop fuel e c ser start_time next_log_time w = Some (StopReached, w')
        \<longrightarrow> (\<exists>rows r tr el cur.
               csv w' = csv w @ rows @ [r] \<and>
               (\<forall>r' \<in> set rows. \<not> fge (output_voltage r') (stop_voltage c)) \<and>
               fge (output_voltage r) (stop_voltage c) \<and>
               trace w' = tr @ [CsvRow r, PlotPoint el (output_voltage r) cur]))
   \<and> (charging_main fuel e b c = Some (Ended StopReached, wm)
        \<longrightarrow> (\<exists>rows r tr el cur sd.
               csv wm = rows @ [r] \<and>
               (\<forall>r' \<in> set rows. \<not> fge (output_voltage r') (stop_voltage c)) \<and>
               fge (output_voltage r) (stop_voltage c) \<and>
               trace wm = tr @ [CsvRow r, PlotPoint el (output_voltage r) cur] @ sd \<and>
               (\<forall>r'. CsvRow r' \<notin> set sd)))"
proof (intro conjI impI)
  assume "log_row e ser start_time w = (Inr v, w1)"
  then show "\<exists>evs r el cur.
         list_all meter_event evs \<and> output_voltage r = v \<and> csv w1 = csv w @ [r] \<and>
         trace w1 = trace w @ evs @
           [SourceQuery ''MEAS:VOLT?'', SourceQuery ''MEAS:CURR?'', SourceQuery ''MEAS:POW?'',
            CsvRow r, PlotPoint el v cur]"
    by (rule log_row_order)
next
  assume "next_log_time \<le> loop_now e (iter w) \<and> log_row e ser start_time w = (Inr v, w1) \<and>
        fge v (stop_voltage c)"
  then show "poll_loop (Suc fuel) e c ser start_time next_log_time w = Some (StopReached, w1)"
    using poll_loop_tick_stops by blast
next
  assume "poll_loop fuel e c ser start_time next_log_time w = Some (StopReached, w')"
  then show "\<exists>rows r tr el cur.
               csv w' = csv w @ rows @ [r] \<and>
               (\<forall>r' \<in> set rows. \<not> fge (output_voltage r') (stop_voltage c)) \<and>
               fge (output_voltage r) (stop_voltage c) \<and>
               trace w' = tr @ [CsvRow r, PlotPoint el (output_voltage r) cur]"
    by (rule poll_loop_stop)
next
  assume m: "charging_main fuel e b c = Some (Ended StopReached, wm)"
  from charging_main_Ended[OF m] obtain ser' w0 w2 where
    s: "trace_ext world0 w0"
      "poll_loop fuel e c ser' (start_now b) (start_now b) w0 = Some (StopReached, w2)"
      "wm = charging_shutdown e ser' w2"
    by blast
  from poll_loop_stop[OF s(2)] obtain rows r tr el cur where
    p: "csv w2 = csv w0 @ rows @ [r]"
      "\<forall>r' \<in> set rows. \<not> fge (output_voltage r') (stop_voltage c)"
      "fge (output_voltage r) (stop_voltage c)"
      "trace w2 = tr @ [CsvRow r, PlotPoint el (output_voltage r) cur]"
    by blast
  have c0: "csv w0 = []" using trace_ext_fields[OF s(1)] world0_fields by simp
  have sdx: "trace_ext w2 wm" unfolding s(3) by (rule charging_shutdown_ext)
  have csvm: "csv wm = rows @ [r]" using trace_ext_fields[OF sdx] p(1) c0 by simp
  obtain sd where sd: "trace wm = trace w2 @ sd" using trace_ext_fields[OF sdx] by blast
  have nocsv: "CsvRow r' \<notin> set sd" for r'
  proof -
    have g: "\<exists>cs. trace (guarded e0 cs0 u) = trace u @ map Shutdown cs" for e0 cs0 u
      using try_calls_trace[of e0 cs0 u] by (auto simp: guarded_def)
    obtain c1 where c1: "trace (guarded e [OutpOff] w2) = trace w2 @ map Shutdown c1"
      using g by blast
    let ?u1 = "guarded e [OutpOff] w2"
    obtain c2 where c2: "trace (guarded e [DcClose, RmClose] ?u1) = trace ?u1 @ map Shutdown c2"
      using g by blast
    let ?u2 = "guarded e [DcClose, RmClose] ?u1"
    let ?u3 = "case ser' of None \<Rightarrow> ?u2 | Some port \<Rightarrow> guarded e [SerClose] ?u2"
    obtain c3 where c3: "trace ?u3 = trace ?u2 @ map Shutdown c3"
    proof (cases ser')
      case None
      then have "trace ?u3 = trace ?u2 @ map Shutdown []" by simp
      then show ?thesis using that by blast
    next
      case (Some port)
      then show ?thesis using g[of e "[SerClose]" ?u2] that by auto
    qed
    obtain c4 where c4: "trace (guarded e [PltIoff, PltClose] ?u3) = trace ?u3 @ map Shutdown c4"
      using g by blast
    have "trace wm = trace w2 @ map Shutdown (c1 @ c2 @ c3 @ c4) @ [ReportCsv]"
      unfolding s(3) charging_shutdown_def Let_def
      using c1 c2 c3 c4 by (simp add: emit_def)
    then have "sd = map Shutdown (c1 @ c2 @ c3 @ c4) @ [ReportCsv]" using sd by simp
    then show ?thesis by auto
  qed
  have "trace wm = tr @ [CsvRow r, PlotPoint el (output_voltage r) cur] @ sd"
    using sd p(4) by simp
  then show "\<exists>rows r tr el cur sd.
               csv wm = rows @ [r] \<and>
               (\<forall>r' \<in> set rows. \<not> fge (output_voltage r') (stop_voltage c)) \<and>
               fge (output_voltage r) (stop_voltage c) \<and>
               trace wm = tr @ [CsvRow r, PlotPoint el (output_voltage r) cur] @ sd \<and>
               (\<forall>r'. CsvRow r' \<notin> set sd)"
    using csvm p(2,3) nocsv by blast
qed

theorem stop_after_row_is_persisted_witness:
  "(\<exists>w'. poll_loop 3 rising_env charging_cfg (Some ''/dev/ttyUSB1'') 0 0 world0
            = Some (StopReached, w')
         \<and> map output_voltage (csv w') = [Fin (41 / 5), Fin (42 / 5)]
         \<and> fge (output_voltage (last (csv w'))) (stop_voltage charging_cfg))
   \<and> (\<exists>wm. charging_main 1 scenario_env sample_bench charging_cfg
            = Some (Ended StopReached, wm)
         \<and> csv wm = [\<lparr>timestamp = 0, input_voltage = Fin (1201 / 100), input_current = Fin 2,
              input_power = Fin (2402 / 100), output_voltage = Fin (120045 / 1000),
              output_current = Fin (1002 / 1000), output_power = Fin (12028 / 100)\<rparr>]
         \<and> fge (output_voltage (last (csv wm))) (stop_voltage charging_cfg))"
proof -
  define X where "X = poll_loop 3 rising_env charging_cfg (Some ''/dev/ttyUSB1'') 0 0 world0"
  define Y where "Y = charging_main 1 scenario_env sample_bench charging_cfg"
  have p: "(case X of
              None \<Rightarrow> False
            | Some (ex, w) \<Rightarrow>
                ex = StopReached \<and> map output_voltage (csv w) = [Fin (41 / 5), Fin (42 / 5)])"
    unfolding X_def by code_simp
  obtain w' where w': "X = Some (StopReached, w')"
    "map output_voltage (csv w') = [Fin (41 / 5), Fin (42 / 5)]"
    using p by (cases X) auto
  note t1 = stop_after_row_is_persisted[where e = rising_env and c = charging_cfg and fuel = 3
      and ser = "Some ''/dev/ttyUSB1''" and start_time = 0 and next_log_time = 0
      and w = world0 and w' = w', THEN conjunct2, THEN conjunct2, THEN conjunct1,
      THEN mp, OF w'(1)[unfolded X_def]]
  from t1 obtain rows r where
    "csv w' = csv world0 @ rows @ [r]" "fge (output_voltage r) (stop_voltage charging_cfg)"
    by blast
  then have l1: "fge (output_voltage (last (csv w'))) (stop_voltage charging_cfg)"
    by simp
  have m: "(case Y of
              None \<Rightarrow> False
            | Some (ex, w) \<Rightarrow>
                ex = Ended StopReached \<and>
                csv w = [\<lparr>timestamp = 0, input_voltage = Fin (1201 / 100), input_current = Fin 2,
                  input_power = Fin (2402 / 100), output_voltage = Fin (120045 / 1000),
                  output_current = Fin (1002 / 1000), output_power = Fin (12028 / 100)\<rparr>])"
    unfolding Y_def by code_simp
  obtain wm where wm: "Y = Some (Ended StopReached, wm)"
    "csv wm = [\<lparr>timestamp = 0, input_voltage = Fin (1201 / 100), input_current = Fin 2,
                  input_power = Fin (2402 / 100), output_voltage = Fin (120045 / 1000),
                  output_current = Fin (1002 / 1000), output_power = Fin (12028 / 100)\<rparr>]"
    using m by (cases Y) auto
  note t2 = stop_after_row_is_persisted[where e = scenario_env and c = charging_cfg and fuel = 1
      and b = sample_bench and wm = wm, THEN conjunct2, THEN conjunct2, THEN conjunct2,
      THEN mp, OF wm(1)[unfolded Y_def]]
  from t2 obtain rows2 r2 where
    "csv wm = rows2 @ [r2]" "fge (output_voltage r2) (stop_voltage charging_cfg)"
    by blast
  then have l2: "fge (output_voltage (last (csv wm))) (stop_voltage charging_cfg)"
    by simp
  have A: "\<exists>w'. poll_loop 3 rising_env charging_cfg (Some ''/dev/ttyUSB1'') 0 0 world0
            = Some (StopReached, w')
         \<and> map output_voltage (csv w') = [Fin (41 / 5), Fin (42 / 5)]
         \<and> fge (output_voltage (last (csv w'))) (stop_voltage charging_cfg)"
    by (rule exI[of _ w'], intro conjI) (rule w'(1)[unfolded X_def] w'(2) l1)+
  have B: "\<exists>wm. charging_main 1 scenario_env sample_bench charging_cfg
            = Some (Ended StopReached, wm)
         \<and> csv wm = [\<lparr>timestamp = 0, input_voltage = Fin (1201 / 100), input_current = Fin 2,
              input_power = Fin (2402 / 100), output_voltage = Fin (120045 / 1000),
              output_current = Fin (1002 / 1000), output_power = Fin (12028 / 100)\<rparr>]
         \<and> fge (output_voltage (last (csv wm))) (stop_voltage charging_cfg)"
    by (rule exI[of _ wm], intro conjI) (rule wm(1)[unfolded Y_def] wm(2) l2)+
  from A B show ?thesis by (rule conjI)
qed

section \<open>Sign normalization\<close>

lemma fabs_not_negative: "\<not> flt (fabs x) fzero"
  by (cases x) (simp_all add: fzero_def)

lemma fabs_nonnegative: "x \<noteq> NaN \<Longrightarrow> fge (fabs x) fzero"
  by (cases x) (simp_all add: fzero_def)

lemma negative_below_positive: "flt v fzero \<Longrightarrow> flt fzero s \<Longrightarrow> \<not> fge v s"
  by (cases v; cases s) (simp_all add: fzero_def)

lemma wt_read_world:
  "snd (wt_read e w) = emit (MeterQuery '':NUM:VAL?'') (w\<lparr>mq := mq w + 1\<rparr>)"
  by (auto simp: wt_read_def Let_def split: reply.splits sum.splits)

lemma mt_tick_Inr:
  assumes "mt_tick e start_time w = (Inr v, w')"
  shows "\<exists>Oc Op wr l1 l2 l3 Iv Ic Ip r.
           wt_read e w = (Inr (v, Oc, Op), wr) \<and>
           source_reply e (sq w) = Line l1 \<and> to_float e l1 = Some Iv \<and>
           source_reply e (sq w + 1) = Line l2 \<and> to_float e l2 = Some Ic \<and>
           source_reply e (sq w + 2) = Line l3 \<and> to_float e l3 = Some Ip \<and>
           r = \<lparr>timestamp = row_now e (iter w), input_voltage = Iv, input_current = Ic,
                input_power = Ip, output_voltage = v, output_current = fabs Oc,
                output_power = fabs Op\<rparr> \<and>
           csv w' = csv w @ [r] \<and> iter w' = iter w \<and>
           trace w' = trace w @ [MeterQuery '':NUM:VAL?'', SourceQuery ''MEAS:VOLT?'',
                                 SourceQuery ''MEAS:CURR?'', SourceQuery ''MEAS:POW?'', CsvRow r,
                                 PlotPoint (plot_now e (iter w) - start_time) v (fabs Oc)]"
proof -
  obtain rr wr where rd: "wt_read e w = (rr, wr)" by (cases "wt_read e w")
  from assms rd obtain Oc Op where rr: "rr = Inr (v, Oc, Op)"
    by (auto simp: mt_tick_def Let_def split: sum.splits prod.splits)
  have wr: "wr = emit (MeterQuery '':NUM:VAL?'') (w\<lparr>mq := mq w + 1\<rparr>)"
    using wt_read_world[of e w] by (simp add: rd)
  obtain q1 w2 where d1: "dc_query_float e ''MEAS:VOLT?'' wr = (q1, w2)"
    by (cases "dc_query_float e ''MEAS:VOLT?'' wr")
  from assms rd rr d1 obtain Iv where q1: "q1 = Inr Iv"
    by (auto simp: mt_tick_def Let_def split: sum.splits prod.splits)
  obtain q2 w3 where d2: "dc_query_float e ''MEAS:CURR?'' w2 = (q2, w3)"
    by (cases "dc_query_float e ''MEAS:CURR?'' w2")
  from assms rd rr d1 q1 d2 obtain Ic where q2: "q2 = Inr Ic"
    by (auto simp: mt_tick_def Let_def split: sum.splits prod.splits)
  obtain q3 w4 where d3: "dc_query_float e ''MEAS:POW?'' w3 = (q3, w4)"
    by (cases "dc_query_float e ''MEAS:POW?'' w3")
  from assms rd rr d1 q1 d2 q2 d3 obtain Ip where q3: "q3 = Inr Ip"
    by (auto simp: mt_tick_def Let_def split: sum.splits prod.splits)
  from dc_query_float_Inr[OF d1[unfolded q1]] obtain l1 where
    l1: "source_reply e (sq wr) = Line l1" "to_float e l1 = Some Iv"
      "w2 = emit (SourceQuery ''MEAS:VOLT?'') (wr\<lparr>sq := sq wr + 1\<rparr>)" by blast
  from dc_query_float_Inr[OF d2[unfolded q2]] obtain l2 where
    l2: "source_reply e (sq w2) = Line l2" "to_float e l2 = Some Ic"
      "w3 = emit (SourceQuery ''MEAS:CURR?'') (w2\<lparr>sq := sq w2 + 1\<rparr>)" by blast
  from dc_query_float_Inr[OF d3[unfolded q3]] obtain l3 where
    l3: "source_reply e (sq w3) = Line l3" "to_float e l3 = Some Ip"
      "w4 = emit (SourceQuery ''MEAS:POW?'') (w3\<lparr>sq := sq w3 + 1\<rparr>)" by blast
  have sqs: "sq wr = sq w" "sq w2 = sq w + 1" "sq w3 = sq w + 2"
    using wr l1(3) l2(3) l3(3) by (simp_all add: emit_def)
  have its: "iter w4 = iter w" "csv w4 = csv w"
    using wr l1(3) l2(3) l3(3) by (simp_all add: emit_def)
  have tr4: "trace w4 = trace w @ [MeterQuery '':NUM:VAL?'', SourceQuery ''MEAS:VOLT?'',
                                  SourceQuery ''MEAS:CURR?'', SourceQuery ''MEAS:POW?'']"
    using wr l1(3) l2(3) l3(3) by (simp add: emit_def)
  define r where "r = \<lparr>timestamp = row_now e (iter w), input_voltage = Iv, input_current = Ic,
                input_power = Ip, output_voltage = v, output_current = fabs Oc,
                output_power = fabs Op\<rparr>"
  have w': "w' = update_plot (plot_now e (iter w) - start_time) v (fabs Oc) (append_row r w4)"
    using assms rd rr d1 q1 d2 q2 d3 q3 its(1)
    by (simp add: mt_tick_def Let_def r_def append_row_def emit_def)
  have fin: "csv w' = csv w @ [r]" "iter w' = iter w"
    "trace w' = trace w @ [MeterQuery '':NUM:VAL?'', SourceQuery ''MEAS:VOLT?'',
                                 SourceQuery ''MEAS:CURR?'', SourceQuery ''MEAS:POW?'', CsvRow r,
                                 PlotPoint (plot_now e (iter w) - start_time) v (fabs Oc)]"
    using its tr4 by (simp_all add: w' update_plot_def append_row_def emit_def)
  show ?thesis
    using rd rr l1(1,2) l2(1,2) l3(1,2) sqs fin r_def by (simp add: add.commute)
qed

lemma mt_tick_Inl:
  assumes "mt_tick e start_time w = (Inl x, w')"
  shows "csv w' = csv w"
proof -
  obtain rr wr where rd: "wt_read e w = (rr, wr)" by (cases "wt_read e w")
  have wr: "wr = emit (MeterQuery '':NUM:VAL?'') (w\<lparr>mq := mq w + 1\<rparr>)"
    using wt_read_world[of e w] by (simp add: rd)
  have q: "dc_query_float e cmd u = (y, u') \<Longrightarrow>
        u' = emit (SourceQuery cmd) (u\<lparr>sq := sq u + 1\<rparr>)" for cmd u y u'
    by (auto simp: dc_query_float_def Let_def split: reply.splits option.splits)
  obtain q1 w2 where d1: "dc_query_float e ''MEAS:VOLT?'' wr = (q1, w2)"
    by (cases "dc_query_float e ''MEAS:VOLT?'' wr")
  obtain q2 w3 where d2: "dc_query_float e ''MEAS:CURR?'' w2 = (q2, w3)"
    by (cases "dc_query_float e ''MEAS:CURR?'' w2")
  obtain q3 w4 where d3: "dc_query_float e ''MEAS:POW?'' w3 = (q3, w4)"
    by (cases "dc_query_float e ''MEAS:POW?'' w3")
  note ws = q[OF d1] q[OF d2] q[OF d3]
  have "w' = wr \<or> w' = w2 \<or> w' = w3 \<or> w' = w4"
    using assms rd d1 d2 d3
    by (auto simp: mt_tick_def Let_def split: sum.splits prod.splits)
  then show ?thesis using wr ws by (auto simp: emit_def)
qed

text \<open>The rows that a loop adds to the file all carry absolute values.\<close>

lemma poll_loop_rows:
  assumes "poll_loop fuel e c ser start_time next_log_time w = Some (ex, w')"
  shows "\<exists>rows. csv w' = csv w @ rows \<and>
           (\<forall>r \<in> set rows. \<exists>Oc Op. output_current r = fabs Oc \<and> output_power r = fabs Op)"
  using assms
proof (induction fuel arbitrary: next_log_time w)
  case 0
  then show ?case by simp
next
  case (Suc fuel)
  show ?case
  proof (cases "next_log_time \<le> loop_now e (iter w)")
    case due: True
    obtain lr w1 where lg: "log_row e ser start_time w = (lr, w1)"
      by (cases "log_row e ser start_time w")
    show ?thesis
    proof (cases lr)
      case (Inl x)
      then have "w' = w1" using Suc.prems due lg by simp
      then show ?thesis using log_row_Inl[OF lg[unfolded Inl]] by simp
    next
      case (Inr v)
      from log_row_Inr[OF lg[unfolded Inr]] obtain Oc Op r where
        r: "csv w1 = csv w @ [r]" "output_current r = fabs Oc" "output_power r = fabs Op"
        by force
      show ?thesis
      proof (cases "fge v (stop_voltage c) \<or> (\<exists>x. loop_sleep e (1 / 10) w1 = Inl x)")
        case True
        then have "w' = w1" using Suc.prems due lg Inr by (auto split: sum.splits if_splits)
        then show ?thesis using r by auto
      next
        case False
        then obtain w2 where sl: "loop_sleep e (1 / 10) w1 = Inr w2"
          and rest: "poll_loop fuel e c ser start_time (next_log_time + log_interval c) w2
                      = Some (ex, w')"
          using Suc.prems due lg Inr by (auto split: sum.splits)
        from Suc.IH[OF rest] obtain rows where
          ih: "csv w' = csv w2 @ rows"
            "\<forall>r \<in> set rows. \<exists>Oc Op. output_current r = fabs Oc \<and> output_power r = fabs Op"
          by blast
        have "csv w' = csv w @ (r # rows)"
          using ih(1) loop_sleep_csv[OF sl] r(1) by simp
        moreover have "\<forall>r' \<in> set (r # rows).
            \<exists>Oc Op. output_current r' = fabs Oc \<and> output_power r' = fabs Op"
          using ih(2) r(2,3) by auto
        ultimately show ?thesis by blast
      qed
    qed
  next
    case False
    show ?thesis
    proof (cases "loop_sleep e (1 / 10) w")
      case (Inl x)
      then have "w' = w" using Suc.prems False by simp
      then show ?thesis by simp
    next
      case (Inr w2)
      then have rest: "poll_loop fuel e c ser start_time next_log_time w2 = Some (ex, w')"
        using Suc.prems False by simp
      from Suc.IH[OF rest] loop_sleep_csv[OF Inr] show ?thesis by simp
    qed
  qed
qed

lemma mt_poll_loop_rows:
  assumes "mt_poll_loop fuel e c start_time w = Some (ex, w')"
  shows "\<exists>rows. csv w' = csv w @ rows \<and>
           (\<forall>r \<in> set rows. \<exists>Oc Op. output_current r = fabs Oc \<and> output_power r = fabs Op)"
  using assms
proof (induction fuel arbitrary: w)
  case 0
  then show ?case by simp
next
  case (Suc fuel)
  obtain lr w1 where lg: "mt_tick e start_time w = (lr, w1)"
    by (cases "mt_tick e start_time w")
  show ?case
  proof (cases lr)
    case (Inl x)
    then have "w' = w1" using Suc.prems lg by simp
    then show ?thesis using mt_tick_Inl[OF lg[unfolded Inl]] by simp
  next
    case (Inr v)
    from mt_tick_Inr[OF lg[unfolded Inr]] obtain Oc Op r where
      r: "csv w1 = csv w @ [r]" "output_current r = fabs Oc" "output_power r = fabs Op"
      by force
    show ?thesis
    proof (cases "fge v (stop_voltage c) \<or> (\<exists>x. loop_sleep e (log_interval c) w1 = Inl x)")
      case True
      then have "w' = w1" using Suc.prems lg Inr by (auto split: sum.splits if_splits)
      then show ?thesis using r by auto
    next
      case False
      then obtain w2 where sl: "loop_sleep e (log_interval c) w1 = Inr w2"
        and rest: "mt_poll_loop fuel e c start_time w2 = Some (ex, w')"
        using Suc.prems lg Inr by (auto split: sum.splits)
      from Suc.IH[OF rest] obtain rows where
        ih: "csv w' = csv w2 @ rows"
          "\<forall>r \<in> set rows. \<exists>Oc Op. output_current r = fabs Oc \<and> output_power r = fabs Op"
        by blast
      have "csv w' = csv w @ (r # rows)"
        using ih(1) loop_sleep_csv[OF sl] r(1) by simp
      moreover have "\<forall>r' \<in> set (r # rows).
          \<exists>Oc Op. output_current r' = fabs Oc \<and> output_power r' = fabs Op"
        using ih(2) r(2,3) by auto
      ultimately show ?thesis by blast
    qed
  qed
qed

lemma cw_log_row_Inr:
  assumes "cw_log_row e ser w = (Inr v, w1)"
  shows "\<exists>i p wr. cw_read_wt310e e ser (emit (Sleep 1) w) = (Inr (v, i, p), wr) \<and>
           csv4 w1 = csv4 wr @ [\<lparr>timestamp4 = row_now e (iter wr), voltage4 = v,
                                  current4 = i, power4 = p\<rparr>]"
proof -
  obtain rr wr where rd: "cw_read_wt310e e ser (emit (Sleep 1) w) = (rr, wr)"
    by (cases "cw_read_wt310e e ser (emit (Sleep 1) w)")
  from assms rd obtain i p where rr: "rr = Inr (v, i, p)"
    by (auto simp: cw_log_row_def Let_def split: sum.splits prod.splits)
  from assms rd rr have "w1 = emit (CsvRow4 \<lparr>timestamp4 = row_now e (iter wr), voltage4 = v,
                                  current4 = i, power4 = p\<rparr>)
       (wr\<lparr>csv4 := csv4 wr @ [\<lparr>timestamp4 = row_now e (iter wr), voltage4 = v,
                                  current4 = i, power4 = p\<rparr>]\<rparr>)"
    by (simp add: cw_log_row_def Let_def)
  then have "csv4 w1 = csv4 wr @ [\<lparr>timestamp4 = row_now e (iter wr), voltage4 = v,
                                  current4 = i, power4 = p\<rparr>]"
    by (simp add: emit_def)
  then show ?thesis using rd rr by blast
qed

lemma abs_rows_not_negative:
  assumes "\<forall>r \<in> set rows. \<exists>Oc Op. output_current r = fabs Oc \<and> output_power r = fabs Op"
  shows "\<forall>r \<in> set rows.
           \<not> flt (output_current r) fzero \<and> \<not> flt (output_power r) fzero \<and>
           (output_current r \<noteq> NaN \<longrightarrow> fge (output_current r) fzero) \<and>
           (output_power r \<noteq> NaN \<longrightarrow> fge (output_power r) fzero)"
proof
  fix r assume "r \<in> set rows"
  with assms obtain Oc Op where o: "output_current r = fabs Oc" "output_power r = fabs Op"
    by blast
  have "fabs x \<noteq> NaN \<Longrightarrow> x \<noteq> NaN" for x by (cases x) simp_all
  then show "\<not> flt (output_current r) fzero \<and> \<not> flt (output_power r) fzero \<and>
           (output_current r \<noteq> NaN \<longrightarrow> fge (output_current r) fzero) \<and>
           (output_power r \<noteq> NaN \<longrightarrow> fge (output_power r) fzero)"
    using o fabs_not_negative fabs_nonnegative by auto
qed

text \<open>
  C4, as amended. In charging.py and in main_test.py every row that a polling loop
  appends carries, as output current and output power, the absolute values of what the
  meter reported: they are never below zero, and they are at least zero unless the
  reported value was NaN (the absolute value of NaN is NaN, and NaN is not at least
  zero). The serial-only script charging_working.py appends the current and the power
  as they were parsed, sign included.
\<close>

theorem logged_magnitudes_not_negative:
  "(poll_loop fuel e c ser start_time next_log_time w = Some (ex, w')
      \<longrightarrow> (\<exists>rows. csv w' = csv w @ rows \<and>
             (\<forall>r \<in> set rows.
                \<not> flt (output_current r) fzero \<and> \<not> flt (output_power r) fzero \<and>
                (output_current r \<noteq> NaN \<longrightarrow> fge (output_current r) fzero) \<and>
                (output_power r \<noteq> NaN \<longrightarrow> fge (output_power r) fzero))))
   \<and> (mt_poll_loop fuel e c start_time w = Some (ex, w')
      \<longrightarrow> (\<exists>rows. csv w' = csv w @ rows \<and>
             (\<forall>r \<in> set rows.
                \<not> flt (output_current r) fzero \<and> \<not> flt (output_power r) fzero \<and>
                (output_current r \<noteq> NaN \<longrightarrow> fge (output_current r) fzero) \<and>
                (output_power r \<noteq> NaN \<longrightarrow> fge (output_power r) fzero))))
   \<and> (log_row e ser start_time w = (Inr v, w1)
      \<longrightarrow> (\<exists>Oc Op wr. read_wt310e e ser 5 w = (Inr (v, Oc, Op), wr) \<and>
             output_current (last (csv w1)) = fabs Oc \<and>
             output_power (last (csv w1)) = fabs Op))
   \<and> (mt_tick e start_time w = (Inr v, w1)
      \<longrightarrow> (\<exists>Oc Op wr. wt_read e w = (Inr (v, Oc, Op), wr) \<and>
             output_current (last (csv w1)) = fabs Oc \<and>
             output_power (last (csv w1)) = fabs Op))
   \<and> (cw_log_row e ser w = (Inr v, w1)
      \<longrightarrow> (\<exists>i p wr. cw_read_wt310e e ser (emit (Sleep 1) w) = (Inr (v, i, p), wr) \<and>
             current4 (last (csv4 w1)) = i \<and> power4 (last (csv4 w1)) = p))"
proof (intro conjI impI)
  assume "poll_loop fuel e c ser start_time next_log_time w = Some (ex, w')"
  from poll_loop_rows[OF this] obtain rows where
    "csv w' = csv w @ rows"
    "\<forall>r \<in> set rows. \<exists>Oc Op. output_current r = fabs Oc \<and> output_power r = fabs Op"
    by blast
  then show "\<exists>rows. csv w' = csv w @ rows \<and>
             (\<forall>r \<in> set rows.
                \<not> flt (output_current r) fzero \<and> \<not> flt (output_power r) fzero \<and>
                (output_current r \<noteq> NaN \<longrightarrow> fge (output_current r) fzero) \<and>
                (output_power r \<noteq> NaN \<longrightarrow> fge (output_power r) fzero))"
    using abs_rows_not_negative by blast
next
  assume "mt_poll_loop fuel e c start_time w = Some (ex, w')"
  from mt_poll_loop_rows[OF this] obtain rows where
    "csv w' = csv w @ rows"
    "\<forall>r \<in> set rows. \<exists>Oc Op. output_current r = fabs Oc \<and> output_power r = fabs Op"
    by blast
  then show "\<exists>rows. csv w' = csv w @ rows \<and>
             (\<forall>r \<in> set rows.
                \<not> flt (output_current r) fzero \<and> \<not> flt (output_power r) fzero \<and>
                (output_current r \<noteq> NaN \<longrightarrow> fge (output_current r) fzero) \<and>
                (output_power r \<noteq> NaN \<longrightarrow> fge (output_power r) fzero))"
    using abs_rows_not_negative by blast
next
  assume "log_row e ser start_time w = (Inr v, w1)"
  from log_row_Inr[OF this] obtain Oc Op wr r where
    "read_wt310e e ser 5 w = (Inr (v, Oc, Op), wr)" "csv w1 = csv w @ [r]"
    "output_current r = fabs Oc" "output_power r = fabs Op"
    by force
  then show "\<exists>Oc Op wr. read_wt310e e ser 5 w = (Inr (v, Oc, Op), wr) \<and>
             output_current (last (csv w1)) = fabs Oc \<and>
             output_power (last (csv w1)) = fabs Op"
    by auto
next
  assume "mt_tick e start_time w = (Inr v, w1)"
  from mt_tick_Inr[OF this] obtain Oc Op wr r where
    "wt_read e w = (Inr (v, Oc, Op), wr)" "csv w1 = csv w @ [r]"
    "output_current r = fabs Oc" "output_power r = fabs Op"
    by force
  then show "\<exists>Oc Op wr. wt_read e w = (Inr (v, Oc, Op), wr) \<and>
             output_current (last (csv w1)) = fabs Oc \<and>
             output_power (last (csv w1)) = fabs Op"
    by auto
next
  assume "cw_log_row e ser w = (Inr v, w1)"
  from cw_log_row_Inr[OF this] show
    "\<exists>i p wr. cw_read_wt310e e ser (emit (Sleep 1) w) = (Inr (v, i, p), wr) \<and>
             current4 (last (csv4 w1)) = i \<and> power4 (last (csv4 w1)) = p"
    by auto
qed

text \<open>
  Against C4 as it was stated: charging_working.py logs a current of -1.5 A as it is,
  and charging.py logs NaN for a current that the meter reports as missing; neither is
  at least zero.
\<close>

theorem logged_magnitudes_counterexample:
  "(\<exists>w1. cw_log_row discharging_env (Some ''COM14'') world0 = (Inr (Fin (41 / 5)), w1)
        \<and> current4 (last (csv4 w1)) = Fin (- (3 / 2))
        \<and> \<not> fge (current4 (last (csv4 w1))) fzero)
   \<and> (\<exists>w1. log_row nodata_env (Some ''/dev/ttyUSB1'') 0 world0 = (Inr (Fin (41 / 5)), w1)
        \<and> output_current (last (csv w1)) = NaN
        \<and> \<not> fge (output_current (last (csv w1))) fzero)"
proof -
  define X where "X = cw_log_row discharging_env (Some ''COM14'') world0"
  define Y where "Y = log_row nodata_env (Some ''/dev/ttyUSB1'') 0 world0"
  have x: "fst X = Inr (Fin (41 / 5)) \<and> current4 (last (csv4 (snd X))) = Fin (- (3 / 2))
           \<and> \<not> fge (current4 (last (csv4 (snd X)))) fzero"
    unfolding X_def by code_simp
  have y: "fst Y = Inr (Fin (41 / 5)) \<and> output_current (last (csv (snd Y))) = NaN
           \<and> \<not> fge (output_current (last (csv (snd Y)))) fzero"
    unfolding Y_def by code_simp
  have A: "\<exists>w1. X = (Inr (Fin (41 / 5)), w1)
        \<and> current4 (last (csv4 w1)) = Fin (- (3 / 2))
        \<and> \<not> fge (current4 (last (csv4 w1))) fzero"
    using x by (intro exI[of _ "snd X"]) (simp add: prod_eq_iff fzero_def)
  have B: "\<exists>w1. Y = (Inr (Fin (41 / 5)), w1)
        \<and> output_current (last (csv w1)) = NaN
        \<and> \<not> fge (output_current (last (csv w1))) fzero"
    using y by (intro exI[of _ "snd Y"]) (simp add: prod_eq_iff fzero_def)
  from A B show ?thesis unfolding X_def Y_def by (rule conjI)
qed

theorem logged_magnitudes_witness:
  "(\<exists>w'. poll_loop 1 charged_env charging_cfg (Some ''/dev/ttyUSB1'') 0 0 world0
            = Some (StopReached, w')
        \<and> map output_current (csv w') = [Fin (3 / 2)]
        \<and> map output_power (csv w') = [Fin (63 / 5)]
        \<and> list_all (\<lambda>r. fge (output_current r) fzero \<and> fge (output_power r) fzero) (csv w'))
   \<and> (\<exists>w'. mt_poll_loop 1 charged_env main_test_cfg 0 world0 = Some (StopReached, w')
        \<and> map output_current (csv w') = [Fin (3 / 2)]
        \<and> list_all (\<lambda>r. fge (output_current r) fzero \<and> fge (output_power r) fzero) (csv w'))"
proof -
  define X where "X = poll_loop 1 charged_env charging_cfg (Some ''/dev/ttyUSB1'') 0 0 world0"
  define Y where "Y = mt_poll_loop 1 charged_env main_test_cfg 0 world0"
  have x: "(case X of None \<Rightarrow> False
            | Some (ex, u) \<Rightarrow> ex = StopReached \<and> map output_current (csv u) = [Fin (3 / 2)]
                \<and> map output_power (csv u) = [Fin (63 / 5)])"
    unfolding X_def by code_simp
  have y: "(case Y of None \<Rightarrow> False
            | Some (ex, u) \<Rightarrow> ex = StopReached \<and> map output_current (csv u) = [Fin (3 / 2)]
                \<and> map output_power (csv u) = [Fin (63 / 5)])"
    unfolding Y_def by code_simp
  obtain w' where w': "X = Some (StopReached, w')" "map output_current (csv w') = [Fin (3 / 2)]"
    "map output_power (csv w') = [Fin (63 / 5)]"
    using x by (cases X) auto
  obtain u' where u': "Y = Some (StopReached, u')" "map output_current (csv u') = [Fin (3 / 2)]"
    "map output_power (csv u') = [Fin (63 / 5)]"
    using y by (cases Y) auto
  note t1 = logged_magnitudes_not_negative[where e = charged_env and c = charging_cfg
      and fuel = 1 and ser = "Some ''/dev/ttyUSB1''" and start_time = 0 and next_log_time = 0
      and w = world0 and w' = w' and ex = StopReached, THEN conjunct1, THEN mp,
      OF w'(1)[unfolded X_def]]
  note t2 = logged_magnitudes_not_negative[where e = charged_env and c = main_test_cfg
      and fuel = 1 and start_time = 0 and w = world0 and w' = u' and ex = StopReached,
      THEN conjunct2, THEN conjunct1, THEN mp, OF u'(1)[unfolded Y_def]]
  have nn: "map output_current rs = [Fin (3 / 2)] \<Longrightarrow> map output_power rs = [Fin (63 / 5)] \<Longrightarrow>
      (\<forall>r \<in> set rs. (output_current r \<noteq> NaN \<longrightarrow> fge (output_current r) fzero) \<and>
                (output_power r \<noteq> NaN \<longrightarrow> fge (output_power r) fzero)) \<Longrightarrow>
      list_all (\<lambda>r. fge (output_current r) fzero \<and> fge (output_power r) fzero) rs" for rs
    by (cases rs) auto
  have c0: "csv world0 = []" by (simp add: world0_def)
  from t1 have l1: "list_all (\<lambda>r. fge (output_current r) fzero \<and> fge (output_power r) fzero) (csv w')"
    using nn[OF w'(2,3)] c0 by auto
  from t2 have l2: "list_all (\<lambda>r. fge (output_current r) fzero \<and> fge (output_power r) fzero) (csv u')"
    using nn[OF u'(2,3)] c0 by auto
  have A: "\<exists>w'. X = Some (StopReached, w')
        \<and> map output_current (csv w') = [Fin (3 / 2)]
        \<and> map output_power (csv w') = [Fin (63 / 5)]
        \<and> list_all (\<lambda>r. fge (output_current r) fzero \<and> fge (output_power r) fzero) (csv w')"
    by (rule exI[of _ w'], intro conjI) (rule w' l1)+
  have B: "\<exists>w'. Y = Some (StopReached, w')
        \<and> map output_current (csv w') = [Fin (3 / 2)]
        \<and> list_all (\<lambda>r. fge (output_current r) fzero \<and> fge (output_power r) fzero) (csv w')"
    by (rule exI[of _ u'], intro conjI) (rule u' l2)+
  from A B show ?thesis unfolding X_def Y_def by (rule conjI)
qed

text \<open>
  C10. A logged row holds the meter's voltage and the three values of the source
  exactly as \<open>float\<close> returned them; only the meter's current and power pass through
  \<open>abs\<close>. The loop compares that same voltage, not an absolute value, with the stop
  voltage: a tick whose voltage is below zero, under a stop voltage above zero, does
  not end the loop, which goes on to its sleep. This holds for charging.py and for
  main_test.py.
\<close>

theorem only_current_and_power_normalized:
  "(log_row e ser start_time w = (Inr v, wn)
      \<longrightarrow> (\<exists>Oc Op wr l1 l2 l3 Iv Ic Ip.
             read_wt310e e ser 5 w = (Inr (v, Oc, Op), wr) \<and>
             source_reply e (sq w) = Line l1 \<and> to_float e l1 = Some Iv \<and>
             source_reply e (sq w + 1) = Line l2 \<and> to_float e l2 = Some Ic \<and>
             source_reply e (sq w + 2) = Line l3 \<and> to_float e l3 = Some Ip \<and>
             csv wn = csv w @
               [\<lparr>timestamp = row_now e (iter w), input_voltage = Iv, input_current = Ic,
                 input_power = Ip, output_voltage = v, output_current = fabs Oc,
                 output_power = fabs Op\<rparr>]))
   \<and> (mt_tick e start_time w = (Inr v, wn)
      \<longrightarrow> (\<exists>Oc Op wr l1 l2 l3 Iv Ic Ip.
             wt_read e w = (Inr (v, Oc, Op), wr) \<and>
             source_reply e (sq w) = Line l1 \<and> to_float e l1 = Some Iv \<and>
             source_reply e (sq w + 1) = Line l2 \<and> to_float e l2 = Some Ic \<and>
             source_reply e (sq w + 2) = Line l3 \<and> to_float e l3 = Some Ip \<and>
             csv wn = csv w @
               [\<lparr>timestamp = row_now e (iter w), input_voltage = Iv, input_current = Ic,
                 input_power = Ip, output_voltage = v, output_current = fabs Oc,
                 output_power = fabs Op\<rparr>]))
   \<and> (flt v fzero \<and> flt fzero (stop_voltage c) \<longrightarrow> \<not> fge v (stop_voltage c))
   \<and> (next_log_time \<le> loop_now e (iter w) \<and> log_row e ser start_time w = (Inr v, wn) \<and>
        flt v fzero \<and> flt fzero (stop_voltage c)
      \<longrightarrow> poll_loop (Suc fuel) e c ser start_time next_log_time w =
            (case loop_sleep e (1 / 10) wn of
               Inl x \<Rightarrow> Some (Raised x, wn)
             | Inr w2 \<Rightarrow>
                 poll_loop fuel e c ser start_time (next_log_time + log_interval c) w2))
   \<and> (mt_tick e start_time w = (Inr v, wn) \<and> flt v fzero \<and> flt fzero (stop_voltage c)
      \<longrightarrow> mt_poll_loop (Suc fuel) e c start_time w =
            (case loop_sleep e (log_interval c) wn of
               Inl x \<Rightarrow> Some (Raised x, wn)
             | Inr w2 \<Rightarrow> mt_poll_loop fuel e c start_time w2))"
proof (intro conjI impI)
  assume "log_row e ser start_time w = (Inr v, wn)"
  from log_row_Inr[OF this] show "\<exists>Oc Op wr l1 l2 l3 Iv Ic Ip.
             read_wt310e e ser 5 w = (Inr (v, Oc, Op), wr) \<and>
             source_reply e (sq w) = Line l1 \<and> to_float e l1 = Some Iv \<and>
             source_reply e (sq w + 1) = Line l2 \<and> to_float e l2 = Some Ic \<and>
             source_reply e (sq w + 2) = Line l3 \<and> to_float e l3 = Some Ip \<and>
             csv wn = csv w @
               [\<lparr>timestamp = row_now e (iter w), input_voltage = Iv, input_current = Ic,
                 input_power = Ip, output_voltage = v, output_current = fabs Oc,
                 output_power = fabs Op\<rparr>]"
    by blast
next
  assume "mt_tick e start_time w = (Inr v, wn)"
  from mt_tick_Inr[OF this] show "\<exists>Oc Op wr l1 l2 l3 Iv Ic Ip.
             wt_read e w = (Inr (v, Oc, Op), wr) \<and>
             source_reply e (sq w) = Line l1 \<and> to_float e l1 = Some Iv \<and>
             source_reply e (sq w + 1) = Line l2 \<and> to_float e l2 = Some Ic \<and>
             source_reply e (sq w + 2) = Line l3 \<and> to_float e l3 = Some Ip \<and>
             csv wn = csv w @
               [\<lparr>timestamp = row_now e (iter w), input_voltage = Iv, input_current = Ic,
                 input_power = Ip, output_voltage = v, output_current = fabs Oc,
                 output_power = fabs Op\<rparr>]"
    by blast
next
  assume "flt v fzero \<and> flt fzero (stop_voltage c)"
  then show "\<not> fge v (stop_voltage c)" using negative_below_positive by blast
next
  assume a: "next_log_time \<le> loop_now e (iter w) \<and> log_row e ser start_time w = (Inr v, wn) \<and>
        flt v fzero \<and> flt fzero (stop_voltage c)"
  then have "\<not> fge v (stop_voltage c)" using negative_below_positive by blast
  with a show "poll_loop (Suc fuel) e c ser start_time next_log_time w =
            (case loop_sleep e (1 / 10) wn of
               Inl x \<Rightarrow> Some (Raised x, wn)
             | Inr w2 \<Rightarrow>
                 poll_loop fuel e c ser start_time (next_log_time + log_interval c) w2)"
    by simp
next
  assume a: "mt_tick e start_time w = (Inr v, wn) \<and> flt v fzero \<and> flt fzero (stop_voltage c)"
  then have "\<not> fge v (stop_voltage c)" using negative_below_positive by blast
  with a show "mt_poll_loop (Suc fuel) e c start_time w =
            (case loop_sleep e (log_interval c) wn of
               Inl x \<Rightarrow> Some (Raised x, wn)
             | Inr w2 \<Rightarrow> mt_poll_loop fuel e c start_time w2)"
    by simp
qed

theorem only_current_and_power_normalized_witness:
  "(\<exists>wn. log_row reversed_env (Some ''/dev/ttyUSB1'') 0 world0 = (Inr (Fin (- (42 / 5))), wn)
        \<and> csv wn = [\<lparr>timestamp = 0, input_voltage = Fin (1201 / 100),
                      input_current = Fin (1201 / 100), input_power = Fin (1201 / 100),
                      output_voltage = Fin (- (42 / 5)), output_current = Fin (3 / 2),
                      output_power = Fin (63 / 5)\<rparr>])
   \<and> flt (Fin (- (42 / 5))) fzero
   \<and> flt fzero (stop_voltage charging_cfg)
   \<and> \<not> fge (Fin (- (42 / 5))) (stop_voltage charging_cfg)
   \<and> poll_loop 1 reversed_env charging_cfg (Some ''/dev/ttyUSB1'') 0 0 world0 = None"
proof -
  define X where "X = log_row reversed_env (Some ''/dev/ttyUSB1'') 0 world0"
  have x: "fst X = Inr (Fin (- (42 / 5)))
        \<and> csv (snd X) = [\<lparr>timestamp = 0, input_voltage = Fin (1201 / 100),
                      input_current = Fin (1201 / 100), input_power = Fin (1201 / 100),
                      output_voltage = Fin (- (42 / 5)), output_current = Fin (3 / 2),
                      output_power = Fin (63 / 5)\<rparr>]"
    unfolding X_def by code_simp
  then have X: "X = (Inr (Fin (- (42 / 5))), snd X)" by (simp add: prod_eq_iff)
  have n: "flt (Fin (- (42 / 5))) fzero" by (simp add: fzero_def)
  have s: "flt fzero (stop_voltage charging_cfg)" by (simp add: fzero_def charging_cfg_def)
  have due: "(0::real) \<le> loop_now reversed_env (iter world0)"
    by (simp add: reversed_env_def sample_env_def world0_def)
  note t = only_current_and_power_normalized[where e = reversed_env and c = charging_cfg
      and ser = "Some ''/dev/ttyUSB1''" and start_time = 0 and next_log_time = 0
      and w = world0 and wn = "snd X" and v = "Fin (- (42 / 5))" and fuel = 0]
  from t n s have ng: "\<not> fge (Fin (- (42 / 5))) (stop_voltage charging_cfg)" by blast
  have sl: "\<exists>w2. loop_sleep reversed_env (1 / 10) (snd X) = Inr w2"
    by (simp add: loop_sleep_def reversed_env_def sample_env_def)
  from t due X[unfolded X_def] n s
  have "poll_loop (Suc 0) reversed_env charging_cfg (Some ''/dev/ttyUSB1'') 0 0 world0 =
            (case loop_sleep reversed_env (1 / 10) (snd X) of
               Inl x \<Rightarrow> Some (Raised x, snd X)
             | Inr w2 \<Rightarrow>
                 poll_loop 0 reversed_env charging_cfg (Some ''/dev/ttyUSB1'') 0
                   (0 + log_interval charging_cfg) w2)"
    unfolding X_def by blast
  then have pl: "poll_loop 1 reversed_env charging_cfg (Some ''/dev/ttyUSB1'') 0 0 world0 = None"
    using sl by (auto simp del: poll_loop.simps simp add: poll_loop.simps(1))
  have A: "\<exists>wn. X = (Inr (Fin (- (42 / 5))), wn)
        \<and> csv wn = [\<lparr>timestamp = 0, input_voltage = Fin (1201 / 100),
                      input_current = Fin (1201 / 100), input_power = Fin (1201 / 100),
                      output_voltage = Fin (- (42 / 5)), output_current = Fin (3 / 2),
                      output_power = Fin (63 / 5)\<rparr>]"
    using x X by (intro exI[of _ "snd X"]) simp
  from A n s ng pl show ?thesis unfolding X_def by (intro conjI)
qed

section \<open>The schedule of the ticks\<close>







section \<open>The shutdown blocks\<close>

lemma guarded_one: "trace (guarded e [c] w) = trace w @ [Shutdown c]"
  by (simp add: guarded_def emit_def)

lemma guarded_two:
  "trace (guarded e [c, d] w) =
     trace w @ [Shutdown c] @ (if sd_raises e c then [] else [Shutdown d])"
  by (simp add: guarded_def emit_def)

lemma charging_shutdown_trace:
  "trace (charging_shutdown e ser w) =
     trace w @ [Shutdown OutpOff, Shutdown DcClose] @
     (if sd_raises e DcClose then [] else [Shutdown RmClose]) @
     (case ser of None \<Rightarrow> [] | Some port \<Rightarrow> [Shutdown SerClose]) @
     [Shutdown PltIoff] @ (if sd_raises e PltIoff then [] else [Shutdown PltClose]) @
     [ReportCsv]"
  by (cases ser) (simp_all add: charging_shutdown_def Let_def guarded_one guarded_two emit_def)

lemma mt_guarded_part:
  "trace (guarded e [DcClose, RmClose]
            (if has_rm then guarded e [WtRmClose] (guarded e [WtInstClose] (guarded e [OutpOff] w))
             else guarded e [WtInstClose] (guarded e [OutpOff] w))) =
     trace w @ [Shutdown OutpOff, Shutdown WtInstClose] @
     (if has_rm then [Shutdown WtRmClose] else []) @ [Shutdown DcClose] @
     (if sd_raises e DcClose then [] else [Shutdown RmClose])"
  by (simp add: guarded_one guarded_two)

lemma try_three:
  "try_calls e [a, b, c] w =
     (if sd_raises e a then (False, emit (Shutdown a) w)
      else if sd_raises e b then (False, emit (Shutdown b) (emit (Shutdown a) w))
      else if sd_raises e c then
        (False, emit (Shutdown c) (emit (Shutdown b) (emit (Shutdown a) w)))
      else (True, emit (Shutdown c) (emit (Shutdown b) (emit (Shutdown a) w))))"
  by simp

lemma mt_shutdown_trace:
  "\<exists>rest. trace (snd (mt_shutdown e has_rm w)) =
       trace w @ [Shutdown OutpOff, Shutdown WtInstClose] @
       (if has_rm then [Shutdown WtRmClose] else []) @ [Shutdown DcClose] @
       (if sd_raises e DcClose then [] else [Shutdown RmClose]) @ [Shutdown SaveFig] @ rest \<and>
     (\<not> sd_raises e SaveFig \<and> \<not> sd_raises e PltIoff \<and> \<not> sd_raises e PltClose
        \<longrightarrow> fst (mt_shutdown e has_rm w) \<and>
            rest = [Shutdown PltIoff, Shutdown PltClose, ReportCsv, ReportGraph])"
proof -
  let ?w4 = "guarded e [DcClose, RmClose]
            (if has_rm then guarded e [WtRmClose] (guarded e [WtInstClose] (guarded e [OutpOff] w))
             else guarded e [WtInstClose] (guarded e [OutpOff] w))"
  have m: "mt_shutdown e has_rm w =
      (case try_calls e [SaveFig, PltIoff, PltClose] ?w4 of
           (False, w5) \<Rightarrow> (False, w5)
         | (True, w5) \<Rightarrow> (True, emits [ReportCsv, ReportGraph] w5))"
    by (simp add: mt_shutdown_def Let_def)
  show ?thesis
    unfolding m try_three
    using mt_guarded_part[of e has_rm w]
    by (auto simp: emit_def emits_def)
qed

lemma mt_logging_Some:
  assumes "mt_logging fuel e c has_rm start_time w = Some (ex, res)"
  shows "\<exists>wn. mt_poll_loop fuel e c start_time w = Some (ex, wn) \<and> res = mt_shutdown e has_rm wn"
  using assms by (auto simp: mt_logging_def split: option.splits)

text \<open>
  C5, as amended. charging.py: the \<open>finally\<close> block first tries to switch the
  source off, then closes the source's transport (the resource manager only when that
  close returned), then the meter's port, then the plot window, and then reports the CSV
  path; each step is attempted whatever the earlier ones did, and the report is always
  printed. That script writes no plot image. main_test.py: the block tries to switch the
  source off, then closes the meter (the driver guards its own closes), then the
  source's transport, each attempted whatever the earlier ones did, and then saves the
  plot image; when saving and closing the plot succeed it reports both paths. Every
  way out of either polling loop, be it the threshold, Ctrl-C or an error, goes through
  the block.
\<close>

theorem shutdown_steps_all_attempted:
  "trace (charging_shutdown e ser w) =
     trace w @ [Shutdown OutpOff, Shutdown DcClose] @
     (if sd_raises e DcClose then [] else [Shutdown RmClose]) @
     (case ser of None \<Rightarrow> [] | Some port \<Rightarrow> [Shutdown SerClose]) @
     [Shutdown PltIoff] @ (if sd_raises e PltIoff then [] else [Shutdown PltClose]) @
     [ReportCsv]
   \<and> (\<exists>rest. trace (snd (mt_shutdown e has_rm w)) =
         trace w @ [Shutdown OutpOff, Shutdown WtInstClose] @
         (if has_rm then [Shutdown WtRmClose] else []) @ [Shutdown DcClose] @
         (if sd_raises e DcClose then [] else [Shutdown RmClose]) @ [Shutdown SaveFig] @ rest \<and>
       (\<not> sd_raises e SaveFig \<and> \<not> sd_raises e PltIoff \<and> \<not> sd_raises e PltClose
          \<longrightarrow> fst (mt_shutdown e has_rm w) \<and>
              rest = [Shutdown PltIoff, Shutdown PltClose, ReportCsv, ReportGraph]))
   \<and> (charging_main fuel e b c = Some (Ended ex, wm)
        \<longrightarrow> (\<exists>ser' w0 wn. poll_loop fuel e c ser' (start_now b) (start_now b) w0 = Some (ex, wn) \<and>
               wm = charging_shutdown e ser' wn))
   \<and> (mt_logging fuel e c has_rm start_time w = Some (ex, res)
        \<longrightarrow> (\<exists>wn. mt_poll_loop fuel e c start_time w = Some (ex, wn) \<and>
               res = mt_shutdown e has_rm wn))"
proof (intro conjI impI)
  show "trace (charging_shutdown e ser w) =
     trace w @ [Shutdown OutpOff, Shutdown DcClose] @
     (if sd_raises e DcClose then [] else [Shutdown RmClose]) @
     (case ser of None \<Rightarrow> [] | Some port \<Rightarrow> [Shutdown SerClose]) @
     [Shutdown PltIoff] @ (if sd_raises e PltIoff then [] else [Shutdown PltClose]) @
     [ReportCsv]"
    by (rule charging_shutdown_trace)
next
  show "\<exists>rest. trace (snd (mt_shutdown e has_rm w)) =
         trace w @ [Shutdown OutpOff, Shutdown WtInstClose] @
         (if has_rm then [Shutdown WtRmClose] else []) @ [Shutdown DcClose] @
         (if sd_raises e DcClose then [] else [Shutdown RmClose]) @ [Shutdown SaveFig] @ rest \<and>
       (\<not> sd_raises e SaveFig \<and> \<not> sd_raises e PltIoff \<and> \<not> sd_raises e PltClose
          \<longrightarrow> fst (mt_shutdown e has_rm w) \<and>
              rest = [Shutdown PltIoff, Shutdown PltClose, ReportCsv, ReportGraph])"
    by (rule mt_shutdown_trace)
next
  assume "charging_main fuel e b c = Some (Ended ex, wm)"
  from charging_main_Ended[OF this]
  show "\<exists>ser' w0 wn. poll_loop fuel e c ser' (start_now b) (start_now b) w0 = Some (ex, wn) \<and>
               wm = charging_shutdown e ser' wn"
    by blast
next
  assume "mt_logging fuel e c has_rm start_time w = Some (ex, res)"
  then show "\<exists>wn. mt_poll_loop fuel e c start_time w = Some (ex, wn) \<and>
               res = mt_shutdown e has_rm wn"
    by (rule mt_logging_Some)
qed

text \<open>
  Against C5 as it was stated: when every call succeeds charging.py closes the
  source's transport before the meter's port and saves no plot image; and in
  main_test.py a failing \<open>savefig\<close> leaves the block before the paths are reported.
\<close>

theorem shutdown_order_counterexample:
  "trace (charging_shutdown (shutdown_env []) (Some ''/dev/ttyUSB1'') world0) =
     [Shutdown OutpOff, Shutdown DcClose, Shutdown RmClose, Shutdown SerClose,
      Shutdown PltIoff, Shutdown PltClose, ReportCsv]
   \<and> Shutdown SaveFig \<notin> set (trace (charging_shutdown (shutdown_env []) (Some ''/dev/ttyUSB1'') world0))
   \<and> trace (snd (mt_shutdown (shutdown_env [SaveFig]) True world0)) =
     [Shutdown OutpOff, Shutdown WtInstClose, Shutdown WtRmClose, Shutdown DcClose,
      Shutdown RmClose, Shutdown SaveFig]
   \<and> ReportCsv \<notin> set (trace (snd (mt_shutdown (shutdown_env [SaveFig]) True world0)))"
proof -
  have a: "trace (charging_shutdown (shutdown_env []) (Some ''/dev/ttyUSB1'') world0) =
     [Shutdown OutpOff, Shutdown DcClose, Shutdown RmClose, Shutdown SerClose,
      Shutdown PltIoff, Shutdown PltClose, ReportCsv]"
    by (simp add: charging_shutdown_trace shutdown_env_def sample_env_def world0_def)
  have b: "trace (snd (mt_shutdown (shutdown_env [SaveFig]) True world0)) =
     [Shutdown OutpOff, Shutdown WtInstClose, Shutdown WtRmClose, Shutdown DcClose,
      Shutdown RmClose, Shutdown SaveFig]"
    by (simp add: mt_shutdown_def Let_def guarded_def emit_def shutdown_env_def
        sample_env_def world0_def)
  show ?thesis unfolding a b by simp
qed

theorem shutdown_steps_witness:
  "trace (charging_shutdown (shutdown_env [OutpOff, DcClose, SerClose, PltIoff])
            (Some ''/dev/ttyUSB1'') world0) =
     [Shutdown OutpOff, Shutdown DcClose, Shutdown SerClose, Shutdown PltIoff, ReportCsv]
   \<and> (\<exists>rest. trace (snd (mt_shutdown (shutdown_env [OutpOff, WtInstClose, DcClose]) True world0)) =
         [Shutdown OutpOff, Shutdown WtInstClose, Shutdown WtRmClose, Shutdown DcClose,
          Shutdown SaveFig] @ rest
       \<and> rest = [Shutdown PltIoff, Shutdown PltClose, ReportCsv, ReportGraph])"
proof -
  note t = shutdown_steps_all_attempted[where
      e = "shutdown_env [OutpOff, DcClose, SerClose, PltIoff]" and ser = "Some ''/dev/ttyUSB1''"
      and w = world0, THEN conjunct1]
  note u = shutdown_steps_all_attempted[where
      e = "shutdown_env [OutpOff, WtInstClose, DcClose]" and has_rm = True
      and w = world0, THEN conjunct2, THEN conjunct1]
  have a: "trace (charging_shutdown (shutdown_env [OutpOff, DcClose, SerClose, PltIoff])
            (Some ''/dev/ttyUSB1'') world0) =
     [Shutdown OutpOff, Shutdown DcClose, Shutdown SerClose, Shutdown PltIoff, ReportCsv]"
    unfolding t by (simp add: shutdown_env_def sample_env_def world0_def)
  have ok: "\<not> sd_raises (shutdown_env [OutpOff, WtInstClose, DcClose]) SaveFig \<and>
      \<not> sd_raises (shutdown_env [OutpOff, WtInstClose, DcClose]) PltIoff \<and>
      \<not> sd_raises (shutdown_env [OutpOff, WtInstClose, DcClose]) PltClose"
    by (simp add: shutdown_env_def)
  have dc: "sd_raises (shutdown_env [OutpOff, WtInstClose, DcClose]) DcClose"
    by (simp add: shutdown_env_def)
  from u ok dc have b: "\<exists>rest. trace (snd (mt_shutdown (shutdown_env [OutpOff, WtInstClose, DcClose]) True world0)) =
         [Shutdown OutpOff, Shutdown WtInstClose, Shutdown WtRmClose, Shutdown DcClose,
          Shutdown SaveFig] @ rest
       \<and> rest = [Shutdown PltIoff, Shutdown PltClose, ReportCsv, ReportGraph]"
    by (auto simp: world0_def)
  from a b show ?thesis by (rule conjI)
qed

section \<open>Detection of the source\<close>

lemma detect_spe6103_result:
  "fst (detect_spe6103 rs w) = map_option fst (find spe_match rs)"
proof (induction rs w rule: detect_spe6103.induct)
  case (1 w)
  then show ?case by simp
next
  case (2 res p rest w)
  then show ?case
    by (auto simp: spe_match_def split: idn_result.splits)
qed

lemma handles_after_append:
  "handles_after hs (a @ b) = handles_after (handles_after hs a) b"
  by (induction hs a rule: handles_after.induct) simp_all

lemma open_handles_emits: "open_handles (emits evs w) = handles_after (open_handles w) evs"
  by (simp add: open_handles_def emits_def handles_after_append)

lemma detect_spe6103_handles:
  assumes "\<forall>cand \<in> set rs. \<not> spe_match cand" and "\<forall>cand \<in> set rs. tidy cand"
  shows "open_handles (snd (detect_spe6103 rs w)) = open_handles w"
  using assms
proof (induction rs arbitrary: w)
  case Nil
  then show ?case by simp
next
  case (Cons cand rest)
  obtain res p where cand: "cand = (res, p)" by (cases cand)
  have nm: "\<not> spe_match (res, p)" and td: "tidy (res, p)" using Cons.prems cand by simp_all
  have ih: "open_handles (snd (detect_spe6103 rest u)) = open_handles u" for u
    using Cons.IH Cons.prems by simp
  show ?case
  proof (cases "contains ''ASRL'' res \<and> contains ''INSTR'' res")
    case False
    then have "detect_spe6103 (cand # rest) w = detect_spe6103 rest w"
      unfolding cand by auto
    then show ?thesis using ih by simp
  next
    case name: True
    show ?thesis
    proof (cases "open_raises p")
      case True
      then have "detect_spe6103 (cand # rest) w = detect_spe6103 rest w"
        unfolding cand using name by simp
      then show ?thesis using ih by simp
    next
      case op: False
      with td obtain line where line: "idn p = Idn line" and cl: "\<not> close_raises p"
        by (cases "idn p") (auto simp: tidy_def)
      have nomark: "\<not> (contains ''SPE'' (strip line) \<or> contains ''6103'' (strip line))"
        using nm name op line by (simp add: spe_match_def)
      have step: "detect_spe6103 (cand # rest) w =
          detect_spe6103 rest (emits [Opened res, SourceQuery ''*IDN?'', Closed res] w)"
        unfolding cand using name op line cl nomark by simp
      show ?thesis unfolding step ih by (simp add: open_handles_emits)
    qed
  qed
qed

lemma quiet_ext_refl: "quiet_ext w w"
  by (auto simp: quiet_ext_def intro: exI[of _ "[]"])

lemma quiet_ext_trans: "quiet_ext w w1 \<Longrightarrow> quiet_ext w1 w2 \<Longrightarrow> quiet_ext w w2"
  by (auto simp: quiet_ext_def)

lemma quiet_ext_emits: "list_all probing_event evs \<Longrightarrow> quiet_ext w (emits evs w)"
  by (auto simp: quiet_ext_def emits_def)

lemma quiet_ext_emit: "probing_event ev \<Longrightarrow> quiet_ext w (emit ev w)"
  by (auto simp: quiet_ext_def emit_def)

lemma detect_wt310e_quiet: "quiet_ext w (snd (detect_wt310e ds w))"
proof (induction ds w rule: detect_wt310e.induct)
  case (1 w)
  then show ?case by (simp add: quiet_ext_refl)
next
  case (2 dev p rest w)
  have e1: "quiet_ext w (emit (Opened dev) w)"
    by (rule quiet_ext_emit) (simp add: probing_event_def)
  have e2: "quiet_ext w (emits [Opened dev, MeterWrite ''*IDN?'', Sleep (3 / 10)] w)"
    by (rule quiet_ext_emits) (simp add: probing_event_def)
  have e3: "quiet_ext w (emits [Opened dev, MeterWrite ''*IDN?'', Sleep (3 / 10), Closed dev] w)"
    by (rule quiet_ext_emits) (simp add: probing_event_def)
  show ?case
    using 2 e1 e2 e3
    by (auto split: idn_result.splits intro: quiet_ext_trans)
qed

lemma detect_spe6103_quiet: "quiet_ext w (snd (detect_spe6103 rs w))"
proof (induction rs w rule: detect_spe6103.induct)
  case (1 w)
  then show ?case by (simp add: quiet_ext_refl)
next
  case (2 res p rest w)
  have e1: "quiet_ext w (emit (Opened res) w)"
    by (rule quiet_ext_emit) (simp add: probing_event_def)
  have e2: "quiet_ext w (emits [Opened res, SourceQuery ''*IDN?''] w)"
    by (rule quiet_ext_emits) (simp add: probing_event_def)
  have e3: "quiet_ext w (emits [Opened res, SourceQuery ''*IDN?'', Closed res] w)"
    by (rule quiet_ext_emits) (simp add: probing_event_def)
  show ?case
    using 2 e1 e2 e3
    by (auto split: idn_result.splits intro: quiet_ext_trans)
qed

lemma find_meter_quiet: "quiet_ext w (snd (find_meter b w))"
proof -
  obtain port wa where d: "detect_wt310e (serial_devices b) w = (port, wa)"
    by (cases "detect_wt310e (serial_devices b) w")
  have s1: "quiet_ext w wa" using detect_wt310e_quiet[of w "serial_devices b"] by (simp add: d)
  have sl: "quiet_ext wa (emit (Sleep (1 / 2)) wa)"
    by (rule quiet_ext_emit) (simp add: probing_event_def)
  have s2: "quiet_ext w (emit (Sleep (1 / 2)) wa)"
    using s1 sl quiet_ext_trans by blast
  have op: "quiet_ext u (emits [Opened com, Sleep 1] u)" for u com
    by (rule quiet_ext_emits) (simp add: probing_event_def)
  have su: "quiet_ext u (setup_wt310e u)" for u
    unfolding setup_wt310e_def by (rule quiet_ext_emits) (simp add: probing_event_def)
  have s3: "quiet_ext w (emits [Opened com, Sleep 1] (emit (Sleep (1 / 2)) wa))" for com
    using s2 op quiet_ext_trans by blast
  have s4: "quiet_ext w (setup_wt310e (emits [Opened com, Sleep 1] (emit (Sleep (1 / 2)) wa)))"
    for com
    using s3 su quiet_ext_trans by blast
  show ?thesis
    using d s2 s3 s4
    by (auto simp: find_meter_def connect_wt310e_def split: option.splits)
qed

lemma charging_main_NoSource:
  assumes "\<forall>cand \<in> set (visa_resources b). \<not> spe_match cand"
  shows "\<exists>wm. charging_main fuel e b c = Some (NoSource, wm) \<and>
           list_all probing_event (trace wm) \<and> csv wm = [] \<and> plot wm = [] \<and> sq wm = 0"
proof -
  obtain ser wa where fm: "find_meter b world0 = (ser, wa)" by (cases "find_meter b world0")
  obtain dc wb where ds: "detect_spe6103 (visa_resources b) wa = (dc, wb)"
    by (cases "detect_spe6103 (visa_resources b) wa")
  have "find spe_match (visa_resources b) = None" using assms by (auto simp: find_None_iff)
  then have dc: "dc = None"
    using detect_spe6103_result[of "visa_resources b" wa] by (simp add: ds)
  have q1: "quiet_ext world0 wa" using find_meter_quiet[of world0 b] by (simp add: fm)
  have q2: "quiet_ext wa wb"
    using detect_spe6103_quiet[of wa "visa_resources b"] by (simp add: ds)
  have q3: "quiet_ext wb (emit (Sleep (1 / 2)) wb)"
    by (rule quiet_ext_emit) (simp add: probing_event_def)
  have q: "quiet_ext world0 (emit (Sleep (1 / 2)) wb)"
    using q1 q2 q3 quiet_ext_trans by blast
  have m: "charging_main fuel e b c = Some (NoSource, emit (Sleep (1 / 2)) wb)"
    using fm ds dc by (simp add: charging_main_def)
  from q have "list_all probing_event (trace (emit (Sleep (1 / 2)) wb)) \<and>
      csv (emit (Sleep (1 / 2)) wb) = [] \<and> plot (emit (Sleep (1 / 2)) wb) = [] \<and>
      sq (emit (Sleep (1 / 2)) wb) = 0"
    by (auto simp: quiet_ext_def world0_def)
  with m show ?thesis by blast
qed

text \<open>
  C7, as amended. When no candidate matches, \<open>detect_spe6103\<close> returns \<open>None\<close>
  (and only then); when, besides, every candidate that opened also answered the query
  and let itself be closed, the probing leaves open exactly the handles that were open
  before. \<open>main\<close> then returns, for every environment and without entering the
  polling loop: up to that point it has only slept, opened and closed ports, written to
  the meter and queried source candidates; it has written nothing to the source,
  created no CSV file and drawn nothing. The meter may have been configured by then.
\<close>

theorem no_source_found_aborts_before_enable:
  "((\<forall>cand \<in> set rs. \<not> spe_match cand) \<longleftrightarrow> fst (detect_spe6103 rs w) = None)
   \<and> ((\<forall>cand \<in> set rs. \<not> spe_match cand) \<and> (\<forall>cand \<in> set rs. tidy cand)
        \<longrightarrow> open_handles (snd (detect_spe6103 rs w)) = open_handles w)
   \<and> ((\<forall>cand \<in> set (visa_resources b). \<not> spe_match cand)
        \<longrightarrow> (\<exists>wm. charging_main fuel e b c = Some (NoSource, wm) \<and>
               list_all probing_event (trace wm) \<and> csv wm = [] \<and> plot wm = [] \<and> sq wm = 0))"
proof (intro conjI impI)
  show "(\<forall>cand \<in> set rs. \<not> spe_match cand) \<longleftrightarrow> fst (detect_spe6103 rs w) = None"
    by (auto simp: detect_spe6103_result find_None_iff)
next
  assume "(\<forall>cand \<in> set rs. \<not> spe_match cand) \<and> (\<forall>cand \<in> set rs. tidy cand)"
  then show "open_handles (snd (detect_spe6103 rs w)) = open_handles w"
    using detect_spe6103_handles by blast
next
  assume "\<forall>cand \<in> set (visa_resources b). \<not> spe_match cand"
  then show "\<exists>wm. charging_main fuel e b c = Some (NoSource, wm) \<and>
               list_all probing_event (trace wm) \<and> csv wm = [] \<and> plot wm = [] \<and> sq wm = 0"
    by (rule charging_main_NoSource)
qed

text \<open>
  Against C7 as it was stated: on a bench with the meter present and a serial VISA
  resource that times out, no candidate matches and the run is abandoned, but the
  probing has left the handle of that resource open, the meter has been reset and
  configured, and its port stays open.
\<close>

theorem no_source_found_counterexample:
  "fst (detect_spe6103 (visa_resources nosource_bench) world0) = None
   \<and> open_handles (snd (detect_spe6103 (visa_resources nosource_bench) world0))
       = [''ASRL5::INSTR'']
   \<and> (\<exists>wm. charging_main 1 scenario_env nosource_bench charging_cfg = Some (NoSource, wm)
          \<and> MeterWrite ''*RST'' \<in> set (trace wm)
          \<and> open_handles wm = [''ASRL5::INSTR'', ''/dev/ttyUSB1''])"
proof -
  define Y where "Y = charging_main 1 scenario_env nosource_bench charging_cfg"
  have a: "fst (detect_spe6103 (visa_resources nosource_bench) world0) = None"
    by code_simp
  have b: "open_handles (snd (detect_spe6103 (visa_resources nosource_bench) world0))
       = [''ASRL5::INSTR'']"
    by code_simp
  have y: "(case Y of None \<Rightarrow> False
            | Some (res, u) \<Rightarrow> res = NoSource \<and> MeterWrite ''*RST'' \<in> set (trace u)
                \<and> open_handles u = [''ASRL5::INSTR'', ''/dev/ttyUSB1''])"
    unfolding Y_def by code_simp
  obtain wm where wm: "Y = Some (NoSource, wm)" "MeterWrite ''*RST'' \<in> set (trace wm)"
    "open_handles wm = [''ASRL5::INSTR'', ''/dev/ttyUSB1'']"
    using y by (cases Y) auto
  have c: "\<exists>wm. Y = Some (NoSource, wm)
          \<and> MeterWrite ''*RST'' \<in> set (trace wm)
          \<and> open_handles wm = [''ASRL5::INSTR'', ''/dev/ttyUSB1'']"
    by (rule exI[of _ wm], intro conjI) (rule wm)+
  from a b c show ?thesis unfolding Y_def by (intro conjI)
qed

theorem no_source_found_witness:
  "list_all (\<lambda>cand. \<not> spe_match cand) (visa_resources foreign_bench)
   \<and> list_all tidy (visa_resources foreign_bench)
   \<and> fst (detect_spe6103 (visa_resources foreign_bench) world0) = None
   \<and> open_handles (snd (detect_spe6103 (visa_resources foreign_bench) world0)) = []
   \<and> (\<exists>wm. charging_main 7 scenario_env foreign_bench charging_cfg = Some (NoSource, wm)
          \<and> list_all probing_event (trace wm) \<and> csv wm = [])"
proof -
  have a: "list_all (\<lambda>cand. \<not> spe_match cand) (visa_resources foreign_bench)"
    by code_simp
  have b: "list_all tidy (visa_resources foreign_bench)"
    by code_simp
  have a': "\<forall>cand \<in> set (visa_resources foreign_bench). \<not> spe_match cand"
    using a by (simp add: list_all_iff)
  have b': "\<forall>cand \<in> set (visa_resources foreign_bench). tidy cand"
    using b by (simp add: list_all_iff)
  note t = no_source_found_aborts_before_enable[where rs = "visa_resources foreign_bench"
      and w = world0 and b = foreign_bench and fuel = 7 and e = scenario_env
      and c = charging_cfg]
  from t a' have r1: "fst (detect_spe6103 (visa_resources foreign_bench) world0) = None"
    by blast
  from t a' b' have "open_handles (snd (detect_spe6103 (visa_resources foreign_bench) world0))
      = open_handles world0"
    by blast
  then have r2: "open_handles (snd (detect_spe6103 (visa_resources foreign_bench) world0)) = []"
    by (simp add: open_handles_def world0_def)
  from t a' have r3: "\<exists>wm. charging_main 7 scenario_env foreign_bench charging_cfg
        = Some (NoSource, wm) \<and> list_all probing_event (trace wm) \<and> csv wm = []"
    by blast
  from a b r1 r2 r3 show ?thesis by (intro conjI)
qed


end
